theory Spec2Isabelle
  imports Complex_Main
begin

section \<open>Trend and mean-reversion scores of a time series\<close>

text \<open>
  A shallow embedding of \<^verbatim>\<open>utils.py\<close>: the two scoring functions \<^verbatim>\<open>trend_score\<close>
  and \<^verbatim>\<open>mean_rev_score\<close>, on a list of Python numbers.

  There are two models of the arithmetic. In the first the arithmetic is exact: a
  Python float is taken as the real number it denotes and every operation as the
  operation on reals. The code computes in IEEE double precision, where every operation
  rounds, the square of a small number underflows and \<^verbatim>\<open>sum\<close> adds in list order. Its
  intermediate values \<open>x_m\<close>, \<open>numr\<close>, \<open>deno\<close>, \<open>rho\<close> and \<open>x_s\<close> are therefore near the
  real numbers of the exact model, not always equal to them, and an identity of the
  formulas need not be an identity of the doubles. The second model (\<open>trend_score64\<close>,
  \<open>mean_rev_score64\<close>) rounds the result of every operation to a double, with gradual
  underflow. Overflow and the infinities are outside both models, except where a
  division by a NumPy zero produces them (see \<open>trend_score\<close> below).

  The theorems on the two functions are accordingly of four kinds:
  \<^item> evaluations at a concrete input, where every rounding decision is far away or the
    double arithmetic is exact;
  \<^item> statements on the filtering and on the last steps of the functions, which take the
    computed intermediate values as they are, by a hypothesis on \<open>x_m\<close>, \<open>numr\<close>,
    \<open>deno\<close> or \<open>rho\<close>, or for an arbitrary computed value;
  \<^item> identities of the formulas in exact arithmetic, in sections headed as such. They
    describe the formulas and are not statements about the doubles;
  \<^item> statements on the double-precision model, in sections headed as such: evaluations
    where the rounding decides the outcome (the score of a line, of a constant series, of
    scaled and shifted values), and the statements of the second kind once more, with
    the hypothesis on the computed double.
\<close>

subsection \<open>Values and exceptions\<close>

text \<open>
  An element of the input list: a Python number (a float, or an int within the range
  of the floats, as in the documented examples) or NaN. The divisions by \<^verbatim>\<open>float(n)\<close>,
  \<^verbatim>\<open>n-1\<close> and \<open>qv\<close> are then divisions of Python numbers, which raise on a zero
  divisor.
\<close>

datatype pyfloat = Num (num_val: real) | NaN

text \<open>
  The built-in exceptions that the two functions can raise. The source has no
  exception class of its own and no \<^verbatim>\<open>raise\<close> statement: every failure comes out of
  an arithmetic operation or of \<^verbatim>\<open>int()\<close>.
\<close>

datatype error = ZeroDivisionError | ValueError | OverflowError

text \<open>\<^verbatim>\<open>np.isnan(v)\<close>\<close>

definition isnan :: "pyfloat \<Rightarrow> bool" where
  "isnan v = (v = NaN)"

text \<open>\<^verbatim>\<open>x = [v for v in x if not np.isnan(v)]\<close>, first line of both functions.\<close>

definition drop_nan :: "pyfloat list \<Rightarrow> real list" where
  "drop_nan x = map num_val (filter (\<lambda>v. \<not> isnan v) x)"

text \<open>
  \<^verbatim>\<open>int(round(v))\<close> and \<^verbatim>\<open>int(round(v, 0))\<close>. Python 3's \<^verbatim>\<open>round\<close> on a float and
  NumPy's rounding of a \<^verbatim>\<open>float64\<close> both go to the nearest integer and break an exact
  tie towards the even neighbour.
\<close>

definition py_round :: "real \<Rightarrow> int" where
  "py_round r =
     (let f = \<lfloor>r\<rfloor>; d = r - of_int f in
      if d < 1 / 2 then f
      else if 1 / 2 < d then f + 1
      else if even f then f else f + 1)"

subsection \<open>The trend score\<close>

text \<open>The default values of the keyword arguments \<^verbatim>\<open>alpha=3.0\<close> and \<^verbatim>\<open>beta=15.0\<close>.\<close>

definition alpha_default :: real where
  "alpha_default = 3"

definition beta_default :: real where
  "beta_default = 15"

text \<open>\<^verbatim>\<open>x_m = sum(x)/float(n)\<close> (the caller has checked \<open>n \<noteq> 0\<close>).\<close>

definition x_m :: "real list \<Rightarrow> real" where
  "x_m x = sum_list x / real (length x)"

text \<open>\<^verbatim>\<open>t_m = (1+n)/2.0\<close>\<close>

definition t_m :: "nat \<Rightarrow> real" where
  "t_m n = (1 + real n) / 2"

text \<open>\<^verbatim>\<open>numr = sum([(x[i]-x_m)*(i+1-t_m) for i in range(n)])\<close>\<close>

definition numr :: "real list \<Rightarrow> real" where
  "numr x =
     (let n = length x in
      sum_list (map (\<lambda>i. (x ! i - x_m x) * (real i + 1 - t_m n)) [0..<n]))"

text \<open>
  \<^verbatim>\<open>deno = np.sqrt(sum([(x[i]-x_m)**2 for i in range(n)]) *
                 sum([(i+1-t_m)**2 for i in range(n)]))\<close>
\<close>

definition deno :: "real list \<Rightarrow> real" where
  "deno x =
     (let n = length x in
      sqrt (sum_list (map (\<lambda>i. (x ! i - x_m x)\<^sup>2) [0..<n]) *
            sum_list (map (\<lambda>i. (real i + 1 - t_m n)\<^sup>2) [0..<n])))"

text \<open>\<^verbatim>\<open>rho = numr/deno\<close>, where \<open>deno\<close> is not zero.\<close>

definition rho :: "real list \<Rightarrow> real" where
  "rho x = numr x / deno x"

text \<open>
  \<^verbatim>\<open>trend_score(x, alpha)\<close>. The branches are the outcomes of the straight-line code:
  \<^item> no value left after filtering: \<^verbatim>\<open>sum(x)/float(n)\<close> is \<^verbatim>\<open>0/0.0\<close> and raises
    \<^verbatim>\<open>ZeroDivisionError\<close>;
  \<^item> \<open>deno = 0\<close>: \<open>deno\<close> is a NumPy scalar, so the division only warns and gives NaN
    (for \<open>numr = 0\<close>) or an infinity. NaN propagates to \<^verbatim>\<open>int()\<close>, which raises
    \<^verbatim>\<open>ValueError\<close>. An infinite \<open>rho\<close> gives an infinite product for \<open>alpha > 0\<close>
    (\<^verbatim>\<open>int()\<close> raises \<^verbatim>\<open>OverflowError\<close>), \<open>\<plusminus>100\<close> for \<open>alpha = 0\<close> and zero for
    \<open>alpha < 0\<close>;
  \<^item> \<open>rho = 0\<close> and \<open>alpha < 0\<close>: \<^verbatim>\<open>abs(rho)**alpha\<close> is infinite and its product with
    the sign \<open>0\<close> is NaN, so \<^verbatim>\<open>int()\<close> raises \<^verbatim>\<open>ValueError\<close>;
  \<^item> otherwise \<^verbatim>\<open>Z = int(round(100 * np.sign(rho) * abs(rho)**alpha, 0))\<close>. For
    \<open>rho = 0\<close> the sign is \<open>0\<close> and so is the product, whatever the power is.
\<close>

definition trend_score :: "pyfloat list \<Rightarrow> real \<Rightarrow> error + int" where
  "trend_score xs alpha =
     (let x = drop_nan xs; n = length x in
      if n = 0 then Inl ZeroDivisionError
      else if deno x = 0 then
        (if numr x = 0 then Inl ValueError
         else if 0 < alpha then Inl OverflowError
         else if alpha = 0 then Inr (py_round (100 * sgn (numr x)))
         else Inr 0)
      else if rho x = 0 \<and> alpha < 0 then Inl ValueError
      else Inr (py_round (100 * sgn (rho x) * \<bar>rho x\<bar> powr alpha)))"

subsection \<open>The mean-reversion score\<close>

text \<open>\<^verbatim>\<open>qv = sum([(x[i]-x[i-1])**2 for i in range(1,n)])\<close>\<close>

definition qv :: "real list \<Rightarrow> real" where
  "qv x = sum_list (map (\<lambda>i. (x ! i - x ! (i - 1))\<^sup>2) [1..<length x])"

text \<open>\<^verbatim>\<open>x_s = sum([(x[i]-x_m)**2 for i in range(n)]) / (n-1)\<close>\<close>

definition x_s :: "real list \<Rightarrow> real" where
  "x_s x =
     sum_list (map (\<lambda>i. (x ! i - x_m x)\<^sup>2) [0..<length x]) / real (length x - 1)"

text \<open>
  \<^verbatim>\<open>mean_rev_score(x, beta)\<close>. Each of the three divisions is a Python division and
  raises \<^verbatim>\<open>ZeroDivisionError\<close> on a zero divisor: \<^verbatim>\<open>float(n)\<close> for an empty list,
  \<^verbatim>\<open>n-1\<close> for a single value, \<open>qv\<close> for a list without any change. Otherwise
  \<^verbatim>\<open>Z = int(round(100 * 2**(-beta*x_s/qv)))\<close>.
\<close>

definition mean_rev_score :: "pyfloat list \<Rightarrow> real \<Rightarrow> error + int" where
  "mean_rev_score xs beta =
     (let x = drop_nan xs; n = length x in
      if n = 0 then Inl ZeroDivisionError
      else if n - 1 = 0 then Inl ZeroDivisionError
      else if qv x = 0 then Inl ZeroDivisionError
      else Inr (py_round (100 * 2 powr (- beta * x_s x / qv x))))"

subsection \<open>The value handed to \<^verbatim>\<open>round\<close>\<close>

text \<open>
  Both functions end in \<^verbatim>\<open>int(round(v))\<close>. \<open>trend_arg\<close> and \<open>mean_rev_arg\<close> are the
  two functions up to that call: the value \<open>v\<close>, or the exception raised before a score
  exists (a NaN or infinite \<open>v\<close> counted as the exception that \<^verbatim>\<open>int()\<close> raises on it).
  \<open>score_of\<close> is the call itself, on whatever has been computed.
\<close>

definition trend_arg :: "real list \<Rightarrow> real \<Rightarrow> error + real" where
  "trend_arg x alpha =
     (if length x = 0 then Inl ZeroDivisionError
      else if deno x = 0 then
        (if numr x = 0 then Inl ValueError
         else if 0 < alpha then Inl OverflowError
         else if alpha = 0 then Inr (100 * sgn (numr x))
         else Inr 0)
      else if rho x = 0 \<and> alpha < 0 then Inl ValueError
      else Inr (100 * sgn (rho x) * \<bar>rho x\<bar> powr alpha))"

definition mean_rev_arg :: "real list \<Rightarrow> real \<Rightarrow> error + real" where
  "mean_rev_arg x beta =
     (if length x = 0 then Inl ZeroDivisionError
      else if length x - 1 = 0 then Inl ZeroDivisionError
      else if qv x = 0 then Inl ZeroDivisionError
      else Inr (100 * 2 powr (- beta * x_s x / qv x)))"

definition score_of :: "error + real \<Rightarrow> error + int" where
  "score_of r = (case r of Inl e \<Rightarrow> Inl e | Inr v \<Rightarrow> Inr (py_round v))"

subsection \<open>The same functions in double precision\<close>

text \<open>
  A second model of the two functions, in which every arithmetic operation of the source
  is followed by the rounding of its result to a double. The values of the list are
  doubles (an int of the list is taken as the double of the same value).
\<close>

text \<open>
  The double nearest to a real, ties going to the even significand: 53 significant
  bits, binary exponents from -1022, and below that the fixed spacing \<^verbatim>\<open>2^(-1074)\<close> of the
  subnormal numbers, where a small result loses its low bits and the smallest round to
  zero. A result beyond the largest double is rounded like any other: the overflow to
  infinity is outside the model.
\<close>

definition fl64 :: "real \<Rightarrow> real" where
  "fl64 x =
     (if x = 0 then 0
      else let e = max \<lfloor>log 2 \<bar>x\<bar>\<rfloor> (- 1022) - 52
           in of_int (py_round (x / 2 powr of_int e)) * 2 powr of_int e)"

text \<open>
  \<^verbatim>\<open>sum(ys)\<close> for a list of floats: from 0, left to right, every addition rounded. (From
  version 3.12 on the interpreter sums floats with a compensation term, and its sum can
  differ from this one in the last bit. In the evaluations below it does not: the
  additions there are exact, or the exact sum is a tie between two doubles and the
  compensated sum rounds it the same way.)
\<close>

definition fsum :: "real list \<Rightarrow> real" where
  "fsum ys = foldl (\<lambda>s y. fl64 (s + y)) 0 ys"

text \<open>\<^verbatim>\<open>x_m = sum(x)/float(n)\<close>\<close>

definition x_m64 :: "real list \<Rightarrow> real" where
  "x_m64 x = fl64 (fsum x / real (length x))"

text \<open>\<^verbatim>\<open>t_m = (1+n)/2.0\<close>\<close>

definition t_m64 :: "nat \<Rightarrow> real" where
  "t_m64 n = fl64 ((1 + real n) / 2)"

text \<open>The two factors \<^verbatim>\<open>x[i]-x_m\<close> and \<^verbatim>\<open>i+1-t_m\<close>, each a rounded difference.\<close>

definition dx64 :: "real list \<Rightarrow> nat \<Rightarrow> real" where
  "dx64 x i = fl64 (x ! i - x_m64 x)"

definition dt64 :: "nat \<Rightarrow> nat \<Rightarrow> real" where
  "dt64 n i = fl64 (real i + 1 - t_m64 n)"

text \<open>\<open>numr\<close>: the rounded products, summed.\<close>

definition numr64 :: "real list \<Rightarrow> real" where
  "numr64 x =
     (let n = length x in fsum (map (\<lambda>i. fl64 (dx64 x i * dt64 n i)) [0..<n]))"

text \<open>
  \<open>deno\<close>: the rounded squares \<^verbatim>\<open>(...)**2\<close>, their two sums, the rounded product of the
  sums and its rounded root (\<^verbatim>\<open>np.sqrt\<close> rounds correctly).
\<close>

definition deno64 :: "real list \<Rightarrow> real" where
  "deno64 x =
     (let n = length x in
      fl64 (sqrt (fl64 (fsum (map (\<lambda>i. fl64 ((dx64 x i)\<^sup>2)) [0..<n]) *
                        fsum (map (\<lambda>i. fl64 ((dt64 n i)\<^sup>2)) [0..<n])))))"

text \<open>\<^verbatim>\<open>rho = numr/deno\<close>\<close>

definition rho64 :: "real list \<Rightarrow> real" where
  "rho64 x = fl64 (numr64 x / deno64 x)"

text \<open>
  \<open>trend_score\<close> with the branches of the exact model. The product is
  \<^verbatim>\<open>(100 * np.sign(rho)) * (abs(rho)**alpha)\<close>: the first factor is exact, the power is
  taken as correctly rounded, and the product is rounded. (The evaluations below use the
  power only where it is itself a double; the bounds use only that a power within
  \<open>[0, 1]\<close> is rounded to a double within \<open>[0, 1]\<close>.)
\<close>

definition trend_score64 :: "pyfloat list \<Rightarrow> real \<Rightarrow> error + int" where
  "trend_score64 xs alpha =
     (let x = drop_nan xs; n = length x in
      if n = 0 then Inl ZeroDivisionError
      else if deno64 x = 0 then
        (if numr64 x = 0 then Inl ValueError
         else if 0 < alpha then Inl OverflowError
         else if alpha = 0 then Inr (py_round (100 * sgn (numr64 x)))
         else Inr 0)
      else if rho64 x = 0 \<and> alpha < 0 then Inl ValueError
      else Inr (py_round (fl64 (100 * sgn (rho64 x) * fl64 (\<bar>rho64 x\<bar> powr alpha)))))"

text \<open>\<open>qv\<close>: the rounded differences, squared and rounded, summed.\<close>

definition qv64 :: "real list \<Rightarrow> real" where
  "qv64 x = fsum (map (\<lambda>i. fl64 ((fl64 (x ! i - x ! (i - 1)))\<^sup>2)) [1..<length x])"

text \<open>\<open>x_s\<close>: the sum of the rounded squares, divided by \<^verbatim>\<open>n-1\<close> and rounded.\<close>

definition x_s64 :: "real list \<Rightarrow> real" where
  "x_s64 x =
     fl64 (fsum (map (\<lambda>i. fl64 ((dx64 x i)\<^sup>2)) [0..<length x]) / real (length x - 1))"

text \<open>
  \<open>mean_rev_score\<close>: the exponent is \<^verbatim>\<open>(-beta*x_s)/qv\<close>, a rounded product and a rounded
  quotient; the power of 2 and its product with 100 are rounded.
\<close>

definition mean_rev_score64 :: "pyfloat list \<Rightarrow> real \<Rightarrow> error + int" where
  "mean_rev_score64 xs beta =
     (let x = drop_nan xs; n = length x in
      if n = 0 then Inl ZeroDivisionError
      else if n - 1 = 0 then Inl ZeroDivisionError
      else if qv64 x = 0 then Inl ZeroDivisionError
      else Inr (py_round (fl64 (100 * fl64 (2 powr fl64 (fl64 (- beta * x_s64 x) / qv64 x))))))"

text \<open>
  The two functions in double precision up to the call of \<^verbatim>\<open>round\<close>, as \<open>trend_arg\<close> and
  \<open>mean_rev_arg\<close> above.
\<close>

definition trend_arg64 :: "real list \<Rightarrow> real \<Rightarrow> error + real" where
  "trend_arg64 x alpha =
     (if length x = 0 then Inl ZeroDivisionError
      else if deno64 x = 0 then
        (if numr64 x = 0 then Inl ValueError
         else if 0 < alpha then Inl OverflowError
         else if alpha = 0 then Inr (100 * sgn (numr64 x))
         else Inr 0)
      else if rho64 x = 0 \<and> alpha < 0 then Inl ValueError
      else Inr (fl64 (100 * sgn (rho64 x) * fl64 (\<bar>rho64 x\<bar> powr alpha))))"

definition mean_rev_arg64 :: "real list \<Rightarrow> real \<Rightarrow> error + real" where
  "mean_rev_arg64 x beta =
     (if length x = 0 then Inl ZeroDivisionError
      else if length x - 1 = 0 then Inl ZeroDivisionError
      else if qv64 x = 0 then Inl ZeroDivisionError
      else Inr (fl64 (100 * fl64 (2 powr fl64 (fl64 (- beta * x_s64 x) / qv64 x)))))"

subsection \<open>Notions of the specification\<close>

text \<open>
  Rounding to the nearest integer with ties away from zero, the rule named in the
  specification; kept apart from \<open>py_round\<close>, which is what the code calls.
\<close>

definition round_half_away :: "real \<Rightarrow> int" where
  "round_half_away r = (if 0 \<le> r then \<lfloor>r + 1 / 2\<rfloor> else \<lceil>r - 1 / 2\<rceil>)"

text \<open>\<open>z\<close> is an integer nearest to \<open>r\<close>, and the even one of the two at an exact tie.\<close>

definition nearest_ties_even :: "real \<Rightarrow> int \<Rightarrow> bool" where
  "nearest_ties_even r z =
     (\<bar>r - of_int z\<bar> \<le> 1 / 2 \<and> (\<bar>r - of_int z\<bar> = 1 / 2 \<longrightarrow> even z))"

text \<open>The arithmetic series \<open>a, a + d, \<dots>, a + (n - 1) d\<close>.\<close>

definition line :: "real \<Rightarrow> real \<Rightarrow> nat \<Rightarrow> real list" where
  "line a d n = map (\<lambda>i. a + d * real i) [0..<n]"

text \<open>All values of a list are the same one.\<close>

definition constant_series :: "real list \<Rightarrow> bool" where
  "constant_series x = (\<exists>c. set x \<subseteq> {c})"

subsection \<open>Auxiliary quantities\<close>

text \<open>
  The deviations from the two means and the two sums of squares under the root of
  \<open>deno\<close>, as sums over index sets.
\<close>

definition dx :: "real list \<Rightarrow> nat \<Rightarrow> real" where
  "dx x i = x ! i - x_m x"

definition dt :: "nat \<Rightarrow> nat \<Rightarrow> real" where
  "dt n i = real i + 1 - t_m n"

definition SX :: "real list \<Rightarrow> real" where
  "SX x = (\<Sum>i = 0..<length x. (dx x i)\<^sup>2)"

definition ST :: "nat \<Rightarrow> real" where
  "ST n = (\<Sum>i = 0..<n. (dt n i)\<^sup>2)"


section \<open>Rounding\<close>

lemma py_round_unique:
  assumes "of_int k - 1 / 2 < r" and "r < of_int k + 1 / 2"
  shows "py_round r = k"
proof -
  have "\<lfloor>r\<rfloor> = k \<or> \<lfloor>r\<rfloor> = k - 1" using assms by linarith
  then show ?thesis
  proof
    assume "\<lfloor>r\<rfloor> = k"
    then show ?thesis using assms by (simp add: py_round_def Let_def)
  next
    assume f: "\<lfloor>r\<rfloor> = k - 1"
    then show ?thesis using assms by (simp add: py_round_def Let_def)
  qed
qed

lemma py_round_of_int: "py_round (of_int k) = k"
  by (rule py_round_unique) simp_all

lemma py_round_halves:
  "py_round (of_int k + 1 / 2) = (if even k then k else k + 1)"
proof -
  have "\<lfloor>of_int k + (1 / 2 :: real)\<rfloor> = k" by linarith
  then show ?thesis by (simp add: py_round_def Let_def)
qed

lemma py_round_cases:
  obtains (near) k where "of_int k - 1 / 2 < r" "r < of_int k + 1 / 2" "py_round r = k"
  | (tie) k where "r = of_int k + 1 / 2" "py_round r = (if even k then k else k + 1)"
proof -
  define f where "f = \<lfloor>r\<rfloor>"
  define d where "d = r - of_int f"
  have d: "0 \<le> d" "d < 1" unfolding d_def f_def by linarith+
  consider "d < 1 / 2" | "1 / 2 < d" | "d = 1 / 2" by linarith
  then show thesis
  proof cases
    case 1
    have "of_int f - 1 / 2 < r" "r < of_int f + 1 / 2" using 1 d unfolding d_def by linarith+
    then show ?thesis using near py_round_unique by blast
  next
    case 2
    have "of_int (f + 1) - 1 / 2 < r" "r < of_int (f + 1) + 1 / 2"
      using 2 d unfolding d_def by simp_all
    then show ?thesis using near py_round_unique by blast
  next
    case 3
    then have "r = of_int f + 1 / 2" unfolding d_def by simp
    then show ?thesis using tie py_round_halves by blast
  qed
qed

lemma py_round_uminus: "py_round (- r) = - py_round r"
proof (cases r rule: py_round_cases)
  case (near k)
  have "py_round (- r) = - k"
    by (rule py_round_unique) (use near in simp_all)
  then show ?thesis using near by simp
next
  case (tie k)
  have "- r = of_int (- k - 1) + 1 / 2" using tie by simp
  then have "py_round (- r) = (if even (- k - 1) then - k - 1 else - k - 1 + 1)"
    using py_round_halves by metis
  then show ?thesis using tie by auto
qed

lemma py_round_mono:
  assumes "r \<le> s"
  shows "py_round r \<le> py_round s"
proof -
  have lo: "of_int (py_round t) \<le> t + 1 / 2" and hi: "t - 1 / 2 \<le> of_int (py_round t)" for t
    by (cases t rule: py_round_cases; simp split: if_splits)+
  show ?thesis
  proof (rule ccontr)
    assume "\<not> ?thesis"
    then have gt: "py_round s + 1 \<le> py_round r" by simp
    then have "of_int (py_round s) + (1::real) \<le> of_int (py_round r)"
      by (metis of_int_1 of_int_add of_int_le_iff)
    with lo[of r] hi[of s] assms
    have eq: "r = s" "of_int (py_round r) = r + 1 / 2" "of_int (py_round s) = s - 1 / 2"
      by linarith+
    then show False using gt
      by (cases r rule: py_round_cases; cases s rule: py_round_cases) (auto split: if_splits)
  qed
qed

section \<open>Exact arithmetic: the correlation bound\<close>

text \<open>Facts of the formulas in exact arithmetic: the Cauchy-Schwarz inequality gives
  \<open>|numr| \<le> deno\<close>, hence \<open>|rho| \<le> 1\<close>.\<close>

lemma sum_list_upt: "sum_list (map f [m..<n]) = sum f {m..<n}"
  by (simp add: interv_sum_list_conv_sum_set_nat)

lemma numr_sum: "numr x = (\<Sum>i = 0..<length x. dx x i * dt (length x) i)"
  by (simp add: numr_def Let_def sum_list_upt dx_def dt_def)

lemma deno_sqrt: "deno x = sqrt (SX x * ST (length x))"
  by (simp add: deno_def Let_def sum_list_upt dx_def dt_def SX_def ST_def)

lemma SX_nonneg: "0 \<le> SX x"
  by (simp add: SX_def sum_nonneg)

lemma ST_nonneg: "0 \<le> ST n"
  by (simp add: ST_def sum_nonneg)

lemma cauchy_schwarz_sum:
  fixes a b :: "nat \<Rightarrow> real"
  assumes "finite I"
  shows "(\<Sum>i\<in>I. a i * b i)\<^sup>2 \<le> (\<Sum>i\<in>I. (a i)\<^sup>2) * (\<Sum>i\<in>I. (b i)\<^sup>2)"
proof -
  define A where "A = (\<Sum>i\<in>I. (a i)\<^sup>2)"
  define B where "B = (\<Sum>i\<in>I. (b i)\<^sup>2)"
  define C where "C = (\<Sum>i\<in>I. a i * b i)"
  have A0: "0 \<le> A" unfolding A_def by (simp add: sum_nonneg)
  show ?thesis
  proof (cases "A = 0")
    case True
    then have "\<forall>i\<in>I. (a i)\<^sup>2 = 0"
      unfolding A_def using assms by (simp add: sum_nonneg_eq_0_iff)
    then have "C = 0" unfolding C_def by simp
    then show ?thesis using True unfolding A_def C_def by simp
  next
    case False
    then have Apos: "0 < A" using A0 by simp
    have "0 \<le> (\<Sum>i\<in>I. (A * b i - C * a i)\<^sup>2)" by (simp add: sum_nonneg)
    also have "(\<Sum>i\<in>I. (A * b i - C * a i)\<^sup>2)
        = (\<Sum>i\<in>I. A\<^sup>2 * (b i)\<^sup>2 - 2 * A * C * (a i * b i) + C\<^sup>2 * (a i)\<^sup>2)"
      by (rule sum.cong) (simp_all add: power2_eq_square algebra_simps)
    also have "\<dots> = A\<^sup>2 * B - 2 * A * C * C + C\<^sup>2 * A"
      by (simp add: sum.distrib sum_subtractf sum_distrib_left A_def B_def C_def)
    also have "\<dots> = A * (A * B - C\<^sup>2)"
      by (simp add: power2_eq_square algebra_simps)
    finally have "0 \<le> A * (A * B - C\<^sup>2)" .
    then have "0 \<le> A * B - C\<^sup>2" using Apos by (simp add: zero_le_mult_iff)
    then show ?thesis unfolding A_def B_def C_def by simp
  qed
qed

lemma numr_sq_le: "(numr x)\<^sup>2 \<le> SX x * ST (length x)"
  unfolding numr_sum SX_def ST_def by (rule cauchy_schwarz_sum) simp

lemma abs_numr_le_deno: "\<bar>numr x\<bar> \<le> deno x"
proof -
  have "sqrt ((numr x)\<^sup>2) \<le> sqrt (SX x * ST (length x))"
    using numr_sq_le by (simp only: real_sqrt_le_iff)
  then show ?thesis by (simp add: deno_sqrt)
qed

lemma deno_nonneg: "0 \<le> deno x"
  using abs_numr_le_deno [of x] by linarith

lemma deno_zero_numr: "deno x = 0 \<Longrightarrow> numr x = 0"
  using abs_numr_le_deno [of x] by simp

lemma abs_rho_le_1: "\<bar>rho x\<bar> \<le> 1"
proof (cases "deno x = 0")
  case True
  then show ?thesis by (simp add: rho_def)
next
  case False
  then have "0 < deno x" using deno_nonneg [of x] by simp
  then show ?thesis using abs_numr_le_deno [of x] by (simp add: rho_def)
qed

lemma trend_value_bound:
  assumes "0 \<le> alpha"
  shows "\<bar>100 * sgn (rho x) * \<bar>rho x\<bar> powr alpha\<bar> \<le> 100"
proof -
  have "\<bar>rho x\<bar> powr alpha \<le> 1 powr alpha"
    by (rule powr_mono2) (use assms abs_rho_le_1 in simp_all)
  then have p: "\<bar>rho x\<bar> powr alpha \<le> 1" by simp
  have s: "\<bar>sgn (rho x)\<bar> \<le> 1" by (simp add: abs_sgn_eq)
  have "\<bar>sgn (rho x) * \<bar>rho x\<bar> powr alpha\<bar> \<le> 1 * 1"
    unfolding abs_mult by (rule mult_mono) (use p s in simp_all)
  then show ?thesis by (simp add: abs_mult)
qed

section \<open>Ranges of the raw values\<close>

text \<open>The range of the trend score rests on \<open>|rho| \<le> 1\<close> and is a fact of exact
  arithmetic; the range of the mean-reversion score only needs that sums of squares are
  not negative.\<close>

lemma py_round_bounds:
  assumes "of_int lo \<le> r" and "r \<le> of_int hi"
  shows "lo \<le> py_round r \<and> py_round r \<le> hi"
  using py_round_mono [OF assms(1)] py_round_mono [OF assms(2)]
  by (simp add: py_round_of_int)

lemma trend_score_range:
  assumes "0 \<le> alpha" and "trend_score xs alpha = Inr z"
  shows "- 100 \<le> z \<and> z \<le> 100"
proof -
  define x where "x = drop_nan xs"
  have nz: "deno x \<noteq> 0"
    using assms deno_zero_numr [of x]
    by (auto simp: trend_score_def Let_def x_def split: if_splits)
  then have z: "z = py_round (100 * sgn (rho x) * \<bar>rho x\<bar> powr alpha)"
    using assms by (auto simp: trend_score_def Let_def x_def split: if_splits)
  have "\<bar>100 * sgn (rho x) * \<bar>rho x\<bar> powr alpha\<bar> \<le> 100"
    using trend_value_bound [OF assms(1)] .
  then have "of_int (- 100) \<le> 100 * sgn (rho x) * \<bar>rho x\<bar> powr alpha"
    and "100 * sgn (rho x) * \<bar>rho x\<bar> powr alpha \<le> of_int 100"
    by (simp_all add: abs_le_iff)
  from py_round_bounds [OF this] show ?thesis using z by simp
qed




section \<open>The documented examples\<close>

lemma drop_nan_Num: "drop_nan (map Num x) = x"
  by (induction x) (simp_all add: drop_nan_def isnan_def)

lemma upt_6: "[0..<6] = [0, 1, 2, 3, 4, 5]"
  by (simp add: upt_rec)

lemma x4_x_m: "x_m [1, 3, 2, 4, 3, 5] = 3"
  by (simp add: x_m_def)

lemma x4_numr: "numr [1, 3, 2, 4, 3, 5] = 11"
  by (simp add: numr_def Let_def x4_x_m t_m_def upt_6)

lemma x4_deno: "deno [1, 3, 2, 4, 3, 5] = sqrt 175"
  by (simp add: deno_def Let_def x4_x_m t_m_def upt_6 power2_eq_square)

lemma sqrt_175_bounds: "13228 / 1000 < sqrt 175" "sqrt 175 < 1323 / 100"
  by (rule real_less_rsqrt, simp add: power2_eq_square)
     (rule real_less_lsqrt, simp_all add: power2_eq_square)

lemma x4_rho: "rho [1, 3, 2, 4, 3, 5] = 11 / sqrt 175"
  by (simp add: rho_def x4_numr x4_deno)

lemma trend_score_Num:
  assumes "x \<noteq> []" and "deno x \<noteq> 0" and "rho x \<noteq> 0 \<or> 0 \<le> alpha"
  shows "trend_score (map Num x) alpha =
           Inr (py_round (100 * sgn (rho x) * \<bar>rho x\<bar> powr alpha))"
  using assms by (auto simp: trend_score_def Let_def drop_nan_Num)

lemma mean_rev_score_Num:
  assumes "2 \<le> length x" and "qv x \<noteq> 0"
  shows "mean_rev_score (map Num x) beta =
           Inr (py_round (100 * 2 powr (- beta * x_s x / qv x)))"
  using assms by (auto simp: mean_rev_score_def Let_def drop_nan_Num)

lemma x4_trend_alpha3: "trend_score (map Num [1, 3, 2, 4, 3, 5]) 3 = Inr 57"
proof -
  let ?s = "sqrt 175"
  have s: "13228 / 1000 < ?s" "?s < 1323 / 100" by (rule sqrt_175_bounds)+
  then have pos: "0 < ?s" by linarith
  have cube: "(11 / ?s) ^ 3 = 1331 / (175 * ?s)"
  proof -
    have "(11 / ?s) ^ 3 = 1331 / (?s * ?s * ?s)" by (simp add: power3_eq_cube)
    also have "?s * ?s = 175" by simp
    finally show ?thesis .
  qed
  have "\<bar>11 / ?s\<bar> powr 3 = (11 / ?s) ^ 3" using pos by (simp add: powr_numeral)
  moreover have "sgn (11 / ?s) = 1" using pos by simp
  ultimately have "100 * sgn (11 / ?s) * \<bar>11 / ?s\<bar> powr 3 = 100 * (1331 / (175 * ?s))"
    by (simp only: cube mult_1_right)
  then have v: "100 * sgn (11 / ?s) * \<bar>11 / ?s\<bar> powr 3 = 5324 / (7 * ?s)"
    by simp
  have lo: "of_int 57 - 1 / 2 < 5324 / (7 * ?s)"
    using s pos by (simp add: pos_less_divide_eq)
  have hi: "5324 / (7 * ?s) < of_int 57 + 1 / 2"
    using s pos by (simp add: pos_divide_less_eq)
  have "py_round (5324 / (7 * ?s)) = 57" by (rule py_round_unique [OF lo hi])
  moreover have "trend_score (map Num [1, 3, 2, 4, 3, 5]) 3 =
      Inr (py_round (100 * sgn (rho [1, 3, 2, 4, 3, 5]) * \<bar>rho [1, 3, 2, 4, 3, 5]\<bar> powr 3))"
    by (rule trend_score_Num) (use pos in \<open>simp_all add: x4_deno\<close>)
  ultimately show ?thesis by (simp only: x4_rho v)
qed

lemma x4_trend_alpha1: "trend_score (map Num [1, 3, 2, 4, 3, 5]) 1 = Inr 83"
proof -
  let ?s = "sqrt 175"
  have s: "13228 / 1000 < ?s" "?s < 1323 / 100" by (rule sqrt_175_bounds)+
  then have pos: "0 < ?s" by linarith
  have v: "100 * sgn (11 / ?s) * \<bar>11 / ?s\<bar> powr 1 = 1100 / ?s"
    using pos by (simp add: sgn_if)
  have lo: "of_int 83 - 1 / 2 < 1100 / ?s"
    using s pos by (simp add: pos_less_divide_eq)
  have hi: "1100 / ?s < of_int 83 + 1 / 2"
    using s pos by (simp add: pos_divide_less_eq)
  have "py_round (1100 / ?s) = 83" by (rule py_round_unique [OF lo hi])
  moreover have "trend_score (map Num [1, 3, 2, 4, 3, 5]) 1 =
      Inr (py_round (100 * sgn (rho [1, 3, 2, 4, 3, 5]) * \<bar>rho [1, 3, 2, 4, 3, 5]\<bar> powr 1))"
    by (rule trend_score_Num) (use pos in \<open>simp_all add: x4_deno\<close>)
  ultimately show ?thesis by (simp only: x4_rho v)
qed

lemma upt_1_5: "[1..<5] = [1, 2, 3, 4]"
  by (simp add: upt_rec)

lemma upt_5: "[0..<5] = [0, 1, 2, 3, 4]"
  by (simp add: upt_rec)

lemma x1_qv: "qv [- 1, 1, - 1, 1, - 1] = 16"
  by (simp add: qv_def upt_1_5)

lemma x1_x_m: "x_m [- 1, 1, - 1, 1, - 1] = - 1 / 5"
  by (simp add: x_m_def)

lemma x1_x_s: "x_s [- 1, 1, - 1, 1, - 1] = 6 / 5"
  by (simp add: x_s_def x1_x_m upt_5 power2_eq_square)

lemma two_powr_bounds:
  "455 / 1000 < (2::real) powr (- 9 / 8)" "(2::real) powr (- 9 / 8) < 465 / 1000"
proof -
  let ?y = "(2::real) powr (- 9 / 8)"
  have pos: "0 < ?y" by simp
  have "?y ^ 8 = ?y powr (real 8)" by (subst powr_realpow) simp_all
  also have "\<dots> = 2 powr (- 9)" by (simp add: powr_powr)
  also have "\<dots> = 1 / 512" by (simp add: powr_minus_divide)
  finally have y8: "?y ^ 8 = 1 / 512" .
  have "(455 / 1000 :: real) ^ 8 < ?y ^ 8" unfolding y8 by (simp add: power_divide)
  then show "455 / 1000 < ?y" by (rule power_less_imp_less_base) simp
  have "?y ^ 8 < (465 / 1000 :: real) ^ 8" unfolding y8 by (simp add: power_divide)
  then show "?y < 465 / 1000" by (rule power_less_imp_less_base) simp
qed

lemma x1_mean_rev: "mean_rev_score (map Num [- 1, 1, - 1, 1, - 1]) 15 = Inr 46"
proof -
  let ?y = "(2::real) powr (- 9 / 8)"
  have e: "- 15 * x_s [- 1, 1, - 1, 1, - 1] / qv [- 1, 1, - 1, 1, - 1] = - 9 / 8"
    by (simp add: x1_x_s x1_qv)
  have lo: "of_int 46 - 1 / 2 < 100 * ?y" using two_powr_bounds by simp
  have hi: "100 * ?y < of_int 46 + 1 / 2" using two_powr_bounds by simp
  have "py_round (100 * ?y) = 46" by (rule py_round_unique [OF lo hi])
  moreover have "mean_rev_score (map Num [- 1, 1, - 1, 1, - 1]) 15 =
      Inr (py_round (100 * 2 powr (- 15 * x_s [- 1, 1, - 1, 1, - 1] / qv [- 1, 1, - 1, 1, - 1])))"
    by (rule mean_rev_score_Num) (simp_all add: x1_qv)
  ultimately show ?thesis by (simp only: e)
qed

section \<open>Exact ties\<close>

lemma upt_3: "[0..<3] = [0, 1, 2]"
  by (simp add: upt_rec)

lemma upt_2: "[0..<2] = [0, 1]"
  by (simp add: upt_rec)

lemma upt_1_2: "[1..<2] = [1]"
  by (simp add: upt_rec)

lemma py_round_25_2: "py_round (25 / 2) = 12"
  using py_round_halves [of 12] by simp

lemma round_half_away_25_2: "round_half_away (25 / 2) = 13"
proof -
  have "\<lfloor>13 :: real\<rfloor> = 13" by linarith
  then show ?thesis by (simp add: round_half_away_def)
qed

lemma tie_rho: "rho [0, - 1, 1] = 1 / 2"
proof -
  have "x_m [0, - 1, 1] = 0" by (simp add: x_m_def)
  then have "numr [0, - 1, 1] = 1" "deno [0, - 1, 1] = sqrt 4"
    by (simp_all add: numr_def deno_def Let_def t_m_def upt_3)
  moreover have "sqrt 4 = 2" using real_sqrt_abs [of 2] by simp
  ultimately show ?thesis by (simp add: rho_def)
qed

lemma tie_trend_value: "100 * sgn (rho [0, - 1, 1]) * \<bar>rho [0, - 1, 1]\<bar> powr 3 = 25 / 2"
  by (simp add: tie_rho powr_numeral power3_eq_cube)

lemma tie_trend: "trend_score (map Num [0, - 1, 1]) 3 = Inr 12"
proof -
  have "deno [0, - 1, 1] \<noteq> 0" using tie_rho by (auto simp: rho_def)
  then have "trend_score (map Num [0, - 1, 1]) 3 =
      Inr (py_round (100 * sgn (rho [0, - 1, 1]) * \<bar>rho [0, - 1, 1]\<bar> powr 3))"
    by (intro trend_score_Num) simp_all
  then show ?thesis by (simp only: tie_trend_value py_round_25_2)
qed

lemma tie_mean_rev_value: "100 * 2 powr (- 6 * x_s [0, 1] / qv [0, 1]) = 25 / 2"
proof -
  have m: "x_m [0, 1] = 1 / 2" by (simp add: x_m_def)
  have s: "x_s [0, 1] = 1 / 2" by (simp add: x_s_def m upt_2 power2_eq_square)
  have q: "qv [0, 1] = 1" by (simp add: qv_def upt_1_2)
  have e: "- 6 * x_s [0, 1] / qv [0, 1] = - 3" by (simp add: s q)
  have p: "(2::real) powr (- 3) = 1 / 8" by (simp add: powr_minus_divide)
  show ?thesis by (simp only: e p)
qed

lemma tie_mean_rev: "mean_rev_score (map Num [0, 1]) 6 = Inr 12"
proof -
  have "qv [0, 1] \<noteq> 0" by (simp add: qv_def upt_1_2)
  then have "mean_rev_score (map Num [0, 1]) 6 =
      Inr (py_round (100 * 2 powr (- 6 * x_s [0, 1] / qv [0, 1])))"
    by (intro mean_rev_score_Num) simp_all
  then show ?thesis by (simp only: tie_mean_rev_value py_round_25_2)
qed

section \<open>Exact arithmetic: constant series\<close>

text \<open>In exact arithmetic the mean of a constant series is its value, so the
  deviations, \<open>numr\<close>, \<open>deno\<close> and \<open>qv\<close> are all zero.\<close>

lemma const_nth:
  assumes "set x \<subseteq> {c}" and "i < length x"
  shows "x ! i = c"
  using assms nth_mem by fastforce

lemma const_sum_list:
  assumes "set x \<subseteq> {c}"
  shows "sum_list x = real (length x) * c"
  using assms by (induction x) (simp_all add: algebra_simps)

lemma const_x_m:
  assumes "set x \<subseteq> {c}" and "x \<noteq> []"
  shows "x_m x = c"
  using assms by (simp add: x_m_def const_sum_list)

lemma const_dx:
  assumes "set x \<subseteq> {c}" and "i < length x"
  shows "dx x i = 0"
proof -
  have "x \<noteq> []" using assms by auto
  then show ?thesis using assms by (simp add: dx_def const_x_m const_nth)
qed


lemma const_deno:
  assumes "set x \<subseteq> {c}"
  shows "deno x = 0"
proof -
  have "SX x = 0" unfolding SX_def by (rule sum.neutral) (use assms const_dx in simp)
  then show ?thesis by (simp add: deno_sqrt)
qed






section \<open>Filtering\<close>

lemma drop_nan_filter: "drop_nan (filter (\<lambda>v. \<not> isnan v) xs) = drop_nan xs"
  by (simp add: drop_nan_def)

lemma Num_drop_nan: "map Num (drop_nan xs) = filter (\<lambda>v. \<not> isnan v) xs"
  by (induction xs) (auto simp: drop_nan_def isnan_def split: pyfloat.splits)

section \<open>Exact arithmetic: reversal\<close>

text \<open>In exact arithmetic, reversing the list negates \<open>numr\<close> and keeps \<open>deno\<close>.\<close>

lemma drop_nan_rev: "drop_nan (rev xs) = rev (drop_nan xs)"
  by (simp add: drop_nan_def rev_map rev_filter)

lemma x_m_rev: "x_m (rev x) = x_m x"
  by (simp add: x_m_def sum_list_rev)

lemma sum_reindex_rev:
  fixes g :: "nat \<Rightarrow> real"
  shows "(\<Sum>i = 0..<n. g (n - Suc i)) = (\<Sum>i = 0..<n. g i)"
  using sum.nat_diff_reindex [of g n] by (simp add: atLeast0LessThan)

lemma dx_rev:
  assumes "i < length x"
  shows "dx (rev x) i = dx x (length x - Suc i)"
  using assms by (simp add: dx_def x_m_rev rev_nth)

lemma dt_rev:
  assumes "i < n"
  shows "dt n (n - Suc i) = - dt n i"
proof -
  have "real (n - Suc i) = real n - 1 - real i" using assms by (simp add: of_nat_diff)
  then show ?thesis by (simp add: dt_def t_m_def field_simps)
qed

lemma numr_rev: "numr (rev x) = - numr x"
proof -
  let ?n = "length x"
  let ?g = "\<lambda>j. dx x j * dt ?n (?n - Suc j)"
  have "numr (rev x) = (\<Sum>i = 0..<?n. dx x (?n - Suc i) * dt ?n i)"
    unfolding numr_sum by (simp add: dx_rev)
  also have "\<dots> = (\<Sum>i = 0..<?n. ?g (?n - Suc i))"
  proof (rule sum.cong)
    fix i assume "i \<in> {0..<?n}"
    then have "?n - Suc (?n - Suc i) = i" by auto
    then show "dx x (?n - Suc i) * dt ?n i = ?g (?n - Suc i)" by simp
  qed simp
  also have "\<dots> = (\<Sum>i = 0..<?n. ?g i)"
    by (rule sum_reindex_rev)
  also have "\<dots> = (\<Sum>i = 0..<?n. - (dx x i * dt ?n i))"
    by (rule sum.cong) (simp_all add: dt_rev)
  also have "\<dots> = - numr x"
    unfolding numr_sum by (simp add: sum_negf)
  finally show ?thesis .
qed

lemma SX_rev: "SX (rev x) = SX x"
proof -
  have "SX (rev x) = (\<Sum>i = 0..<length x. (dx x (length x - Suc i))\<^sup>2)"
    unfolding SX_def by (simp add: dx_rev)
  also have "\<dots> = SX x"
    unfolding SX_def by (rule sum_reindex_rev [of "\<lambda>j. (dx x j)\<^sup>2"])
  finally show ?thesis .
qed

lemma deno_rev: "deno (rev x) = deno x"
  by (simp add: deno_sqrt SX_rev)

lemma rho_rev: "rho (rev x) = - rho x"
  by (simp add: rho_def numr_rev deno_rev)

lemma trend_score_rev:
  "trend_score (rev xs) alpha = map_sum id uminus (trend_score xs alpha)"
proof -
  have "py_round (100 * sgn (- r) * \<bar>- r\<bar> powr alpha)
      = - py_round (100 * sgn r * \<bar>r\<bar> powr alpha)" for r :: real
    using py_round_uminus [of "100 * sgn r * \<bar>r\<bar> powr alpha"] by (simp add: sgn_minus)
  moreover have "py_round (100 * sgn (- r)) = - py_round (100 * sgn r)" for r :: real
    using py_round_uminus [of "100 * sgn r"] by (simp add: sgn_minus)
  ultimately show ?thesis
    by (simp add: trend_score_def Let_def drop_nan_rev numr_rev deno_rev rho_rev)
qed

section \<open>Exact arithmetic: affine maps of the values\<close>

text \<open>In exact arithmetic, \<open>qv\<close> and \<open>x_s\<close> both scale by \<open>a\<^sup>2\<close> under
  \<open>v \<mapsto> a v + b\<close>, so the mean-reversion score of the formulas does not change.\<close>

lemma sum_list_affine:
  "sum_list (map (\<lambda>v. a * v + b) x) = a * sum_list x + real (length x) * (b::real)"
  by (induction x) (simp_all add: algebra_simps)

lemma x_m_affine:
  assumes "x \<noteq> []"
  shows "x_m (map (\<lambda>v. a * v + b) x) = a * x_m x + b"
proof -
  have "real (length x) \<noteq> 0" using assms by simp
  then show ?thesis
    by (simp add: x_m_def sum_list_affine add_divide_distrib)
qed

lemma qv_affine: "qv (map (\<lambda>v. a * v + b) x) = a\<^sup>2 * qv x"
proof -
  have "(map (\<lambda>v. a * v + b) x ! i - map (\<lambda>v. a * v + b) x ! (i - 1))\<^sup>2
      = a\<^sup>2 * (x ! i - x ! (i - 1))\<^sup>2" if "i \<in> {1..<length x}" for i
  proof -
    have "i < length x" "i - 1 < length x" using that by auto
    then show ?thesis by (simp add: power2_eq_square algebra_simps)
  qed
  then show ?thesis
    by (simp add: qv_def sum_list_upt sum_distrib_left)
qed

lemma x_s_affine: "x_s (map (\<lambda>v. a * v + b) x) = a\<^sup>2 * x_s x"
proof (cases "x = []")
  case True
  then show ?thesis by (simp add: x_s_def)
next
  case False
  have "(map (\<lambda>v. a * v + b) x ! i - x_m (map (\<lambda>v. a * v + b) x))\<^sup>2
      = a\<^sup>2 * (x ! i - x_m x)\<^sup>2" if "i \<in> {0..<length x}" for i
  proof -
    have "map (\<lambda>v. a * v + b) x ! i - x_m (map (\<lambda>v. a * v + b) x) = a * (x ! i - x_m x)"
      using that by (simp add: x_m_affine [OF False] right_diff_distrib)
    then show ?thesis by (simp only: power_mult_distrib)
  qed
  then show ?thesis
    by (simp add: x_s_def sum_list_upt sum_distrib_left)
qed

lemma drop_nan_Num_affine:
  "drop_nan (map (\<lambda>v. Num (a * v + b)) x) = map (\<lambda>v. a * v + b) x"
  by (induction x) (simp_all add: drop_nan_def isnan_def)

lemma mean_rev_score_affine:
  assumes "a \<noteq> 0"
  shows "mean_rev_score (map (\<lambda>v. Num (a * v + b)) x) beta = mean_rev_score (map Num x) beta"
proof -
  have "- beta * (a\<^sup>2 * x_s x) / (a\<^sup>2 * qv x) = - beta * x_s x / qv x"
    using assms by simp
  then show ?thesis
    using assms
    by (simp add: mean_rev_score_def Let_def drop_nan_Num drop_nan_Num_affine
        qv_affine x_s_affine)
qed

section \<open>Exact arithmetic: arithmetic series\<close>

text \<open>In exact arithmetic, an arithmetic series with a non-zero step has
  \<open>rho = \<plusminus>1\<close>.\<close>

lemma sum_real_upt: "(\<Sum>i = 0..<n. real i) = real n * (real n - 1) / 2"
  by (induction n) (simp_all add: field_simps)

lemma line_x_m:
  assumes "0 < n"
  shows "x_m (line a d n) = a + d * (real n - 1) / 2"
proof -
  have "sum_list (line a d n) = (\<Sum>i = 0..<n. a + d * real i)"
    by (simp add: line_def sum_list_upt)
  also have "\<dots> = real n * a + d * (real n * (real n - 1) / 2)"
    by (simp add: sum.distrib sum_distrib_left [symmetric] sum_real_upt)
  finally show ?thesis using assms by (simp add: x_m_def line_def field_simps)
qed

lemma line_dx:
  assumes "i < n"
  shows "dx (line a d n) i = d * dt n i"
proof -
  have "0 < n" using assms by simp
  from line_x_m [OF this] show ?thesis
    using assms by (simp add: dx_def dt_def t_m_def line_def field_simps)
qed

lemma ST_pos:
  assumes "2 \<le> n"
  shows "0 < ST n"
proof -
  have "dt n 0 \<noteq> 0" using assms by (simp add: dt_def t_m_def)
  then have "0 < (dt n 0)\<^sup>2" by simp
  moreover have "(dt n 0)\<^sup>2 \<le> ST n"
    unfolding ST_def
    by (rule member_le_sum [of 0 _ "\<lambda>i. (dt n i)\<^sup>2"]) (use assms in simp_all)
  ultimately show ?thesis by linarith
qed

lemma line_numr: "numr (line a d n) = d * ST n"
  unfolding numr_sum ST_def
  by (simp add: line_def sum_distrib_left)
     (rule sum.cong, simp_all add: line_dx [unfolded line_def] power2_eq_square)

lemma line_deno: "deno (line a d n) = \<bar>d\<bar> * ST n"
proof -
  have "SX (line a d n) = d\<^sup>2 * ST n"
    unfolding SX_def ST_def
    by (simp add: line_def sum_distrib_left)
       (rule sum.cong, simp_all add: line_dx [unfolded line_def] power_mult_distrib)
  then have "deno (line a d n) = sqrt ((d * ST n)\<^sup>2)"
    by (simp add: deno_sqrt line_def power2_eq_square algebra_simps)
  then show ?thesis using ST_nonneg [of n] by (simp add: abs_mult)
qed

lemma line_rho:
  assumes "2 \<le> n" and "d \<noteq> 0"
  shows "rho (line a d n) = sgn d"
  using ST_pos [OF assms(1)] assms(2)
  by (simp add: rho_def line_numr line_deno sgn_real_def)

lemma line_trend:
  assumes "2 \<le> n" and "d \<noteq> 0"
  shows "trend_score (map Num (line a d n)) 3 = Inr (if 0 < d then 100 else - 100)"
proof -
  have nz: "deno (line a d n) \<noteq> 0"
    using ST_pos [OF assms(1)] assms(2) by (simp add: line_deno)
  have ne: "line a d n \<noteq> []" using assms(1) by (auto simp: line_def)
  have "trend_score (map Num (line a d n)) 3 =
      Inr (py_round (100 * sgn (rho (line a d n)) * \<bar>rho (line a d n)\<bar> powr 3))"
    by (rule trend_score_Num [OF ne nz]) simp
  also have "100 * sgn (rho (line a d n)) * \<bar>rho (line a d n)\<bar> powr 3
      = of_int (if 0 < d then 100 else - 100)"
    using assms(2) by (simp add: line_rho [OF assms] sgn_real_def)
  finally show ?thesis by (simp only: py_round_of_int)
qed

section \<open>Compression by the exponent\<close>

lemma py_round_abs:
  "\<bar>py_round (s * v)\<bar> = py_round v" if "0 \<le> v" and "s = 1 \<or> s = - 1" for s v :: real
proof -
  have nn: "0 \<le> py_round v"
    using py_round_mono [OF that(1)] py_round_of_int [of 0] by simp
  from that(2) show ?thesis
  proof
    assume "s = 1"
    then show ?thesis using nn by simp
  next
    assume "s = - 1"
    then have "py_round (s * v) = - py_round v" using py_round_uminus [of v] by simp
    then show ?thesis using nn by simp
  qed
qed


section \<open>What a returned score is\<close>

lemma py_round_nearest_even: "nearest_ties_even r (py_round r)"
proof (cases r rule: py_round_cases)
  case (near k)
  then show ?thesis by (simp add: nearest_ties_even_def abs_if)
next
  case (tie k)
  then show ?thesis by (auto simp: nearest_ties_even_def abs_if)
qed

lemma nearest_ties_even_unique:
  assumes "nearest_ties_even r z"
  shows "z = py_round r"
proof (cases r rule: py_round_cases)
  case (near k)
  have "\<bar>r - of_int z\<bar> \<le> 1 / 2" using assms by (simp add: nearest_ties_even_def)
  then have "of_int z < of_int k + (1::real)" "of_int k < of_int z + (1::real)"
    using near by linarith+
  then have "z < k + 1" "k < z + 1" by linarith+
  then show ?thesis using near by simp
next
  case (tie k)
  have a: "\<bar>r - of_int z\<bar> \<le> 1 / 2" and e: "\<bar>r - of_int z\<bar> = 1 / 2 \<longrightarrow> even z"
    using assms by (simp_all add: nearest_ties_even_def)
  from a tie have "of_int k \<le> (of_int z :: real)" "of_int z \<le> of_int k + (1::real)"
    by linarith+
  then have "k \<le> z" "z \<le> k + 1" by linarith+
  then consider "z = k" | "z = k + 1" by linarith
  then show ?thesis
  proof cases
    case 1
    then have "\<bar>r - of_int z\<bar> = 1 / 2" using tie by simp
    then show ?thesis using e 1 tie by simp
  next
    case 2
    then have "\<bar>r - of_int z\<bar> = 1 / 2" using tie by simp
    then have "even z" using e by simp
    then show ?thesis using 2 tie by auto
  qed
qed

lemma trend_score_value:
  assumes "trend_score xs alpha = Inr z"
  shows "z = py_round (100 * sgn (rho (drop_nan xs)) * \<bar>rho (drop_nan xs)\<bar> powr alpha)"
  using assms deno_zero_numr [of "drop_nan xs"]
  by (auto simp: trend_score_def Let_def split: if_splits)

lemma mean_rev_score_value:
  assumes "mean_rev_score xs beta = Inr z"
  shows "z = py_round (100 * 2 powr (- beta * x_s (drop_nan xs) / qv (drop_nan xs)))"
  using assms by (auto simp: mean_rev_score_def Let_def split: if_splits)

section \<open>Exact arithmetic: when a score is returned\<close>

text \<open>In exact arithmetic, \<open>deno\<close> is zero exactly for a constant series.\<close>

lemma constant_series_short:
  assumes "length x \<le> 1"
  shows "constant_series x"
proof (cases x)
  case Nil
  then show ?thesis by (simp add: constant_series_def)
next
  case (Cons v vs)
  then have "vs = []" using assms by simp
  then show ?thesis using Cons by (auto simp: constant_series_def)
qed

lemma nonconstant_SX:
  assumes "\<not> constant_series x"
  shows "0 < SX x"
proof -
  have "\<exists>i<length x. x ! i \<noteq> x_m x"
  proof (rule ccontr)
    assume "\<not> ?thesis"
    then have "\<forall>i<length x. x ! i = x_m x" by simp
    then have "set x \<subseteq> {x_m x}" by (auto simp: in_set_conv_nth)
    then show False using assms by (auto simp: constant_series_def)
  qed
  then obtain i where i: "i < length x" "x ! i \<noteq> x_m x" by blast
  then have "0 < (dx x i)\<^sup>2" by (simp add: dx_def)
  moreover have "(dx x i)\<^sup>2 \<le> SX x"
    unfolding SX_def
    by (rule member_le_sum [of i _ "\<lambda>j. (dx x j)\<^sup>2"]) (use i in simp_all)
  ultimately show ?thesis by linarith
qed

lemma nonconstant_deno:
  assumes "\<not> constant_series x"
  shows "0 < deno x"
proof -
  have "2 \<le> length x" using assms constant_series_short [of x] by linarith
  then have "0 < ST (length x)" by (rule ST_pos)
  then show ?thesis using nonconstant_SX [OF assms] by (simp add: deno_sqrt)
qed

lemma trend_score_returns:
  assumes "\<not> constant_series (drop_nan xs)" and "0 \<le> alpha"
  shows "\<exists>z. trend_score xs alpha = Inr z"
proof -
  have "drop_nan xs \<noteq> []" using assms(1) constant_series_short [of "drop_nan xs"] by auto
  then show ?thesis
    using nonconstant_deno [OF assms(1)] assms(2) by (simp add: trend_score_def Let_def)
qed

lemma qv_short:
  assumes "length x \<le> 1"
  shows "qv x = 0"
  using assms by (simp add: qv_def)

lemma mean_rev_score_returns:
  assumes "0 < qv (drop_nan xs)"
  shows "\<exists>z. mean_rev_score xs beta = Inr z"
proof -
  have "\<not> length (drop_nan xs) \<le> 1" using assms qv_short [of "drop_nan xs"] by auto
  then show ?thesis using assms by (auto simp: mean_rev_score_def Let_def)
qed

lemma constant_series_iff_deno: "constant_series x \<longleftrightarrow> deno x = 0"
proof
  assume "constant_series x"
  then show "deno x = 0" using const_deno by (auto simp: constant_series_def)
next
  assume "deno x = 0"
  then show "constant_series x" using nonconstant_deno [of x] by fastforce
qed

section \<open>The last step: rounding the computed value\<close>

lemma trend_score_score_of: "trend_score xs alpha = score_of (trend_arg (drop_nan xs) alpha)"
  by (simp add: trend_score_def trend_arg_def score_of_def Let_def py_round_of_int [of 0, simplified])

lemma mean_rev_score_score_of:
  "mean_rev_score xs beta = score_of (mean_rev_arg (drop_nan xs) beta)"
  by (simp add: mean_rev_score_def mean_rev_arg_def score_of_def Let_def)

lemma score_of_nearest:
  assumes "score_of r = Inr z"
  shows "\<exists>v. r = Inr v \<and> nearest_ties_even v z"
  using assms py_round_nearest_even by (auto simp: score_of_def split: sum.splits)

lemma tie_trend_arg: "trend_arg [0, - 1, 1] 3 = Inr (25 / 2)"
proof -
  have "deno [0, - 1, 1] \<noteq> 0" "rho [0, - 1, 1] \<noteq> 0" using tie_rho by (auto simp: rho_def)
  then have "trend_arg [0, - 1, 1] 3
      = Inr (100 * sgn (rho [0, - 1, 1]) * \<bar>rho [0, - 1, 1]\<bar> powr 3)"
    by (simp add: trend_arg_def)
  then show ?thesis by (simp only: tie_trend_value)
qed

lemma tie_mean_rev_arg: "mean_rev_arg [0, 1] 6 = Inr (25 / 2)"
proof -
  have "qv [0, 1] \<noteq> 0" by (simp add: qv_def upt_1_2)
  then have "mean_rev_arg [0, 1] 6 = Inr (100 * 2 powr (- 6 * x_s [0, 1] / qv [0, 1]))"
    by (simp add: mean_rev_arg_def)
  then show ?thesis by (simp only: tie_mean_rev_value)
qed

section \<open>Ranges, from the computed correlation\<close>




section \<open>Negative exponents\<close>




section \<open>Constant series, from the computed mean\<close>



section \<open>Reversal, from the computed numerator and denominator\<close>


section \<open>Double precision: the rounding\<close>

text \<open>Values with a short significand are not changed by the rounding; below the normal range
  the spacing is fixed.\<close>

lemma fl64_0 [simp]: "fl64 0 = 0"
  by (simp add: fl64_def)

lemma fl64_uminus: "fl64 (- x) = - fl64 x"
  by (simp add: fl64_def Let_def py_round_uminus)

lemma fl64_at:
  assumes "2 powr of_int L \<le> \<bar>x\<bar>" and "\<bar>x\<bar> < 2 powr (of_int L + 1)" and "- 1022 \<le> L"
  shows "fl64 x = of_int (py_round (x / 2 powr of_int (L - 52))) * 2 powr of_int (L - 52)"
proof -
  have "0 < (2::real) powr of_int L" by simp
  then have pos: "0 < \<bar>x\<bar>" using assms(1) by linarith
  then have "\<lfloor>log 2 \<bar>x\<bar>\<rfloor> = L"
    using assms(1,2) by (simp add: floor_log_eq_powr_iff)
  then show ?thesis using pos assms(3) by (simp add: fl64_def Let_def max_def)
qed

lemma fl64_subnormal:
  assumes "x \<noteq> 0" and "\<bar>x\<bar> < 2 powr (- 1022)"
  shows "fl64 x = of_int (py_round (x * 2 ^ 1074)) / 2 ^ 1074"
proof -
  have pos: "0 < \<bar>x\<bar>" using assms(1) by simp
  have "log 2 \<bar>x\<bar> < - 1022"
    using assms(2) pos by (simp add: log_less_iff)
  then have "\<lfloor>log 2 \<bar>x\<bar>\<rfloor> < - 1022" by linarith
  then have e: "max \<lfloor>log 2 \<bar>x\<bar>\<rfloor> (- 1022) - 52 = - 1074" by simp
  have p: "(2::real) powr of_int (- 1074) = 1 / 2 ^ 1074"
    by (simp add: powr_minus_divide powr_realpow [of 2 1074, simplified])
  show ?thesis using assms(1) by (simp add: fl64_def Let_def e p del: of_int_minus)
qed

lemma fl64_exact:
  assumes "\<bar>m\<bar> < 2 ^ 53" and "- 1074 \<le> k"
  shows "fl64 (of_int m * 2 powr of_int k) = of_int m * 2 powr of_int k"
proof (cases "m = 0")
  case True
  then show ?thesis by simp
next
  case False
  let ?x = "of_int m * 2 powr of_int k :: real"
  have xpos: "0 < \<bar>?x\<bar>" using False by simp
  have "\<bar>?x\<bar> = of_int \<bar>m\<bar> * 2 powr of_int k" by (simp add: abs_mult)
  also have "\<dots> < 2 ^ 53 * 2 powr of_int k"
  proof -
    have "(of_int \<bar>m\<bar> :: real) < 2 ^ 53" using assms(1) by (metis of_int_less_numeral_power_cancel_iff)
    then show ?thesis by simp
  qed
  also have "\<dots> = 2 powr (53 + of_int k)"
    by (simp add: powr_add powr_realpow [of 2 53, simplified])
  finally have "log 2 \<bar>?x\<bar> < 53 + of_int k"
    using xpos by (simp add: log_less_iff)
  then have L: "\<lfloor>log 2 \<bar>?x\<bar>\<rfloor> - 52 \<le> k" by linarith
  define e where "e = max \<lfloor>log 2 \<bar>?x\<bar>\<rfloor> (- 1022) - 52"
  have ek: "e \<le> k" using L assms(2) by (simp add: e_def max_def)
  then obtain d :: nat where d: "k = e + int d"
    by (metis zle_iff_zadd)
  have "2 powr of_int k = 2 powr of_int e * (2::real) ^ d"
    by (simp add: d powr_add powr_realpow)
  then have q: "?x / 2 powr of_int e = of_int (m * 2 ^ d)" by simp
  have "fl64 ?x = of_int (py_round (?x / 2 powr of_int e)) * 2 powr of_int e"
    using False by (simp add: fl64_def Let_def e_def)
  also have "\<dots> = of_int (m * 2 ^ d) * 2 powr of_int e"
    by (simp only: q py_round_of_int)
  also have "\<dots> = ?x"
    by (simp add: d powr_add powr_realpow)
  finally show ?thesis .
qed

lemma fl64_dyadic:
  assumes "\<bar>m\<bar> < 2 ^ 53" and "j \<le> 1074"
  shows "fl64 (of_int m / 2 ^ j) = of_int m / 2 ^ j"
proof -
  have "(2::real) powr of_int (- int j) = 1 / 2 ^ j"
    by (simp add: powr_minus_divide powr_realpow)
  then show ?thesis
    using fl64_exact [OF assms(1), of "- int j"] assms(2) by simp
qed

lemma fl64_int:
  assumes "\<bar>m\<bar> < 2 ^ 53"
  shows "fl64 (of_int m) = of_int m"
  using fl64_dyadic [OF assms, of 0] by simp


section \<open>Double precision: sums\<close>

text \<open>A rounded sum of multiples of one power of two is exact as long as it stays short.\<close>

lemma fsum_Nil [simp]: "fsum [] = 0"
  by (simp add: fsum_def)

lemma fsum_two: "fsum [a, b] = fl64 (fl64 a + b)"
  by (simp add: fsum_def)

lemma fsum_one: "fsum [a] = fl64 a"
  by (simp add: fsum_def)



section \<open>Double precision: a line whose squares underflow\<close>







section \<open>Double precision: integer lines of moderate size\<close>






lemma fl64_1: "fl64 1 = 1" "fl64 (- 1) = - 1" "fl64 100 = 100" "fl64 (- 100) = - 100"
  using fl64_int [of 1] fl64_int [of "- 1"] fl64_int [of 100] fl64_int [of "- 100"] by simp_all


section \<open>Double precision: the mean-reversion score under scaling and shifting\<close>

text \<open>
  The series \<open>[0, 1]\<close> with \<open>beta = 6\<close> scores 12. Scaled by \<^verbatim>\<open>5/2^538\<close> its squares are
  subnormal and round (\<open>6.25\<close> to 6 and \<open>1.5625\<close> to 2 spacings), the ratio \<open>x_s / qv\<close>
  becomes \<open>2/3\<close> instead of \<open>1/2\<close> and the score 6. Shifted by \<^verbatim>\<open>2^52\<close> the sum of the
  two values is a tie and rounds to \<^verbatim>\<open>2^53\<close>, the mean is the first value, \<open>x_s / qv\<close>
  becomes 1 and the score 2.
\<close>

lemma fl64_small:
  "fl64 (1 / 2) = 1 / 2" "fl64 (- (1 / 2)) = - (1 / 2)" "fl64 (1 / 4) = 1 / 4"
  "fl64 (1 / 8) = 1 / 8" "fl64 (25 / 2) = 25 / 2" "fl64 (- 3) = - 3" "fl64 (- 6) = - 6"
  "fl64 (- 4) = - 4" "fl64 (1 / 16) = 1 / 16" "fl64 (1 / 64) = 1 / 64" "fl64 (25 / 4) = 25 / 4"
  "fl64 (25 / 16) = 25 / 16"
  using fl64_dyadic [of 1 1] fl64_dyadic [of "- 1" 1] fl64_dyadic [of 1 2] fl64_dyadic [of 1 3]
    fl64_dyadic [of 25 1] fl64_int [of "- 3"] fl64_int [of "- 6"] fl64_int [of "- 4"]
    fl64_dyadic [of 1 4] fl64_dyadic [of 1 6] fl64_dyadic [of 25 2] fl64_dyadic [of 25 4]
  by simp_all

lemma py_round_quarters: "py_round (25 / 4) = 6" "py_round (25 / 16) = 2"
  by (rule py_round_unique; simp)+

lemma mr64_01: "mean_rev_score64 [Num 0, Num 1] 6 = Inr 12"
proof -
  let ?x = "[0, 1 :: real]"
  have u2: "[0..<2] = [0, Suc 0]" and u12: "[1..<2] = [Suc 0]" by (simp_all add: upt_rec)
  have l: "length ?x = 2" by simp
  have q: "qv64 ?x = 1"
    by (simp only: qv64_def l u12) (simp add: fsum_one fl64_1)
  have xm: "x_m64 ?x = 1 / 2" by (simp add: x_m64_def fsum_two fl64_1 fl64_small)
  have dx: "dx64 ?x 0 = - (1 / 2)" "dx64 ?x (Suc 0) = 1 / 2"
    by (simp_all add: dx64_def xm fl64_small)
  have "x_s64 ?x = fl64 (fsum (map (\<lambda>i. fl64 ((dx64 ?x i)\<^sup>2)) [0, Suc 0]) / real (2 - 1))"
    by (simp only: x_s64_def l u2)
  then have xs: "x_s64 ?x = 1 / 2"
    by (simp add: dx fsum_two power2_eq_square fl64_small)
  have e: "fl64 (fl64 (- 6 * x_s64 ?x) / qv64 ?x) = - 3" by (simp add: xs q fl64_small)
  have p: "(2::real) powr (- 3) = 1 / 8" by (simp add: powr_minus_divide)
  have v: "fl64 (100 * fl64 (2 powr fl64 (fl64 (- 6 * x_s64 ?x) / qv64 ?x))) = 25 / 2"
    by (simp only: e p fl64_small) (simp add: fl64_small)
  have dn: "drop_nan [Num 0, Num 1] = ?x" by (simp add: drop_nan_def isnan_def)
  have "mean_rev_score64 [Num 0, Num 1] 6
      = Inr (py_round (fl64 (100 * fl64 (2 powr fl64 (fl64 (- 6 * x_s64 ?x) / qv64 ?x)))))"
    by (simp add: mean_rev_score64_def Let_def dn q)
  then show ?thesis by (simp only: v py_round_25_2)
qed

lemma mr64_scaled: "mean_rev_score64 [Num 0, Num (5 / 2 ^ 538)] 6 = Inr 6"
proof -
  define v :: real where "v = 1 / 2 ^ 540"
  define q :: real where "q = 1 / 2 ^ 1074"
  have vpos: "0 < v" by (simp add: v_def)
  have qpos: "0 < q" by (simp add: q_def)
  have ex: "fl64 (of_int m * v) = of_int m * v" if "\<bar>m\<bar> < 2 ^ 53" for m
    using fl64_dyadic [OF that, of 540] by (simp add: v_def)
  have exq: "fl64 (of_int m * q) = of_int m * q" if "\<bar>m\<bar> < 2 ^ 53" for m
    using fl64_dyadic [OF that, of 1074] by (simp add: q_def)
  have e20: "fl64 (20 * v) = 20 * v" and e10: "fl64 (10 * v) = 10 * v"
    and m10: "fl64 (- (10 * v)) = - (10 * v)"
    using ex [of 20] ex [of 10] ex [of "- 10"] by simp_all
  have q2: "fl64 (2 * q) = 2 * q" and q4: "fl64 (4 * q) = 4 * q" and q6: "fl64 (6 * q) = 6 * q"
    and q24: "fl64 (- (24 * q)) = - (24 * q)"
    using exq [of 2] exq [of 4] exq [of 6] exq [of "- 24"] by simp_all
  have h: "(5 / 2 ^ 538 :: real) = 20 * v" by (simp add: v_def)
  have vv: "v\<^sup>2 = q / 64" by (simp add: v_def q_def power2_eq_square)
  have sub: "fl64 (of_int k * v\<^sup>2) = of_int (py_round (of_int k / 64)) * q"
    if "0 < k" "k < 2 ^ 20" for k :: int
  proof -
    have x: "of_int k * v\<^sup>2 * 2 ^ 1074 = of_int k / 64" by (simp add: vv q_def)
    have nz: "of_int k * v\<^sup>2 \<noteq> 0" using that(1) vpos by simp
    have "(of_int k :: real) < 2 ^ 20" using that(2) by (metis of_int_less_numeral_power_cancel_iff)
    then have "of_int k * v\<^sup>2 < 2 ^ 20 * v\<^sup>2" using vpos by simp
    also have "\<dots> < 1 / 2 ^ 1022" by (simp add: vv q_def)
    finally have "\<bar>of_int k * v\<^sup>2\<bar> < 2 powr (- 1022)"
      using that(1) by (simp add: abs_mult powr_minus_divide powr_realpow [of 2 1022, simplified])
    from fl64_subnormal [OF nz this] show ?thesis by (simp only: x) (simp add: q_def)
  qed
  have sq400: "fl64 (400 * v\<^sup>2) = 6 * q" and sq100: "fl64 (100 * v\<^sup>2) = 2 * q"
    using sub [of 400] sub [of 100] py_round_quarters by simp_all
  let ?x = "[0, 20 * v]"
  have u2: "[0..<2] = [0, Suc 0]" and u12: "[1..<2] = [Suc 0]" by (simp_all add: upt_rec)
  have l: "length ?x = 2" by simp
  have "qv64 ?x = fsum (map (\<lambda>i. fl64 ((fl64 (?x ! i - ?x ! (i - 1)))\<^sup>2)) [Suc 0])"
    by (simp only: qv64_def l u12)
  then have qv: "qv64 ?x = 6 * q"
    by (simp add: fsum_one e20 power_mult_distrib sq400 q6)
  have xm: "x_m64 ?x = 10 * v" by (simp add: x_m64_def fsum_two e20 e10)
  have dx: "dx64 ?x 0 = - (10 * v)" "dx64 ?x (Suc 0) = 10 * v"
    by (simp_all add: dx64_def xm m10 e10)
  have "x_s64 ?x = fl64 (fsum (map (\<lambda>i. fl64 ((dx64 ?x i)\<^sup>2)) [0, Suc 0]) / real (2 - 1))"
    by (simp only: x_s64_def l u2)
  then have xs: "x_s64 ?x = 4 * q"
    by (simp add: dx fsum_two power_mult_distrib sq100 q2 q4)
  have e: "fl64 (fl64 (- 6 * x_s64 ?x) / qv64 ?x) = - 4"
    using qpos by (simp add: xs qv q24 fl64_small)
  have p: "(2::real) powr (- 4) = 1 / 16" by (simp add: powr_minus_divide)
  have v: "fl64 (100 * fl64 (2 powr fl64 (fl64 (- 6 * x_s64 ?x) / qv64 ?x))) = 25 / 4"
    by (simp only: e p fl64_small) (simp add: fl64_small)
  have dn: "drop_nan [Num 0, Num (20 * v)] = ?x" by (simp add: drop_nan_def isnan_def)
  have qnz: "qv64 ?x \<noteq> 0" using qpos by (simp add: qv)
  have "mean_rev_score64 [Num 0, Num (20 * v)] 6
      = Inr (py_round (fl64 (100 * fl64 (2 powr fl64 (fl64 (- 6 * x_s64 ?x) / qv64 ?x)))))"
    using qnz by (simp add: mean_rev_score64_def Let_def dn)
  then have "mean_rev_score64 [Num 0, Num (20 * v)] 6 = Inr 6"
    by (simp only: v py_round_quarters)
  then show ?thesis by (simp only: h)
qed

lemma fl64_tie_2_53: "fl64 9007199254740993 = 9007199254740992"
proof -
  have a: "(2::real) powr of_int 53 \<le> \<bar>9007199254740993\<bar>"
    by (simp add: powr_realpow [of 2 53, simplified])
  have b: "\<bar>9007199254740993 :: real\<bar> < 2 powr (of_int 53 + 1)"
    using powr_realpow [of 2 54] by simp
  have "(9007199254740993 / 2 :: real) = of_int 4503599627370496 + 1 / 2" by simp
  then have r: "py_round (9007199254740993 / 2) = 4503599627370496"
    using py_round_halves [of 4503599627370496] by (simp only:) simp
  have "fl64 9007199254740993
      = of_int (py_round (9007199254740993 / 2 powr of_int (53 - 52))) * 2 powr of_int (53 - 52)"
    by (rule fl64_at [OF a b]) simp
  also have "(2::real) powr of_int (53 - 52) = 2" by simp
  finally show ?thesis by (simp only: r)
qed

lemma mr64_shifted:
  "mean_rev_score64 [Num 4503599627370496, Num 4503599627370497] 6 = Inr 2"
proof -
  let ?x = "[4503599627370496, 4503599627370497 :: real]"
  have eA: "fl64 4503599627370496 = 4503599627370496"
    "fl64 9007199254740992 = 9007199254740992"
    using fl64_int [of 4503599627370496] fl64_exact [of 1 53] powr_realpow [of 2 53] by simp_all
  have u2: "[0..<2] = [0, Suc 0]" and u12: "[1..<2] = [Suc 0]" by (simp_all add: upt_rec)
  have l: "length ?x = 2" by simp
  have "qv64 ?x = fsum (map (\<lambda>i. fl64 ((fl64 (?x ! i - ?x ! (i - 1)))\<^sup>2)) [Suc 0])"
    by (simp only: qv64_def l u12)
  then have qv: "qv64 ?x = 1" by (simp add: fsum_one fl64_1)
  have "fsum ?x = fl64 (fl64 4503599627370496 + 4503599627370497)" by (rule fsum_two)
  also have "\<dots> = fl64 9007199254740993" by (simp only: eA) simp
  finally have s: "fsum ?x = 9007199254740992" by (simp only: fl64_tie_2_53)
  have xm: "x_m64 ?x = 4503599627370496"
    using eA(1) by (simp add: x_m64_def s)
  have dx: "dx64 ?x 0 = 0" "dx64 ?x (Suc 0) = 1"
    by (simp_all add: dx64_def xm fl64_1)
  have "x_s64 ?x = fl64 (fsum (map (\<lambda>i. fl64 ((dx64 ?x i)\<^sup>2)) [0, Suc 0]) / real (2 - 1))"
    by (simp only: x_s64_def l u2)
  then have xs: "x_s64 ?x = 1"
    by (simp add: dx fsum_two fl64_1)
  have e: "fl64 (fl64 (- 6 * x_s64 ?x) / qv64 ?x) = - 6" by (simp add: xs qv fl64_small)
  have p: "(2::real) powr (- 6) = 1 / 64" by (simp add: powr_minus_divide)
  have v: "fl64 (100 * fl64 (2 powr fl64 (fl64 (- 6 * x_s64 ?x) / qv64 ?x))) = 25 / 16"
    by (simp only: e p fl64_small) (simp add: fl64_small)
  have dn: "drop_nan [Num 4503599627370496, Num 4503599627370497] = ?x"
    by (simp add: drop_nan_def isnan_def)
  have "mean_rev_score64 [Num 4503599627370496, Num 4503599627370497] 6
      = Inr (py_round (fl64 (100 * fl64 (2 powr fl64 (fl64 (- 6 * x_s64 ?x) / qv64 ?x)))))"
    by (simp add: mean_rev_score64_def Let_def dn qv)
  then show ?thesis by (simp only: v py_round_quarters)
qed

section \<open>Double precision: negated values\<close>

text \<open>The rounding is odd, so negating every value negates the sums and the mean and leaves
  the squares as they are.\<close>

lemma foldl_fl64_uminus:
  "foldl (\<lambda>s y. fl64 (s + y)) (- acc) (map uminus ys) = - foldl (\<lambda>s y. fl64 (s + y)) acc ys"
proof (induction ys arbitrary: acc)
  case Nil
  then show ?case by simp
next
  case (Cons y ys)
  have e: "fl64 (- acc + - y) = - fl64 (acc + y)"
    using fl64_uminus [of "acc + y"] by simp
  have "foldl (\<lambda>s y. fl64 (s + y)) (- acc) (map uminus (y # ys))
      = foldl (\<lambda>s y. fl64 (s + y)) (fl64 (- acc + - y)) (map uminus ys)"
    by (simp only: list.map foldl_Cons)
  also have "\<dots> = - foldl (\<lambda>s y. fl64 (s + y)) (fl64 (acc + y)) ys"
    by (simp only: e Cons.IH)
  also have "\<dots> = - foldl (\<lambda>s y. fl64 (s + y)) acc (y # ys)"
    by (simp only: foldl_Cons)
  finally show ?case .
qed

lemma fsum_uminus: "fsum (map uminus ys) = - fsum ys"
  using foldl_fl64_uminus [of 0 ys] by (simp add: fsum_def)

lemma x_m64_uminus: "x_m64 (map uminus x) = - x_m64 x"
  using fl64_uminus [of "fsum x / real (length x)"] by (simp add: x_m64_def fsum_uminus)

lemma dx64_uminus: "i < length x \<Longrightarrow> dx64 (map uminus x) i = - dx64 x i"
  using fl64_uminus [of "x ! i - x_m64 x"] by (simp add: dx64_def x_m64_uminus)

lemma qv64_uminus: "qv64 (map uminus x) = qv64 x"
proof -
  have "map (\<lambda>i. fl64 ((fl64 (map uminus x ! i - map uminus x ! (i - 1)))\<^sup>2)) [1..<length x]
      = map (\<lambda>i. fl64 ((fl64 (x ! i - x ! (i - 1)))\<^sup>2)) [1..<length x]"
  proof (rule map_cong [OF refl])
    fix i assume "i \<in> set [1..<length x]"
    then have i: "i < length x" "i - 1 < length x" by auto
    have "fl64 (- (x ! i) - - (x ! (i - 1))) = - fl64 (x ! i - x ! (i - 1))"
      using fl64_uminus [of "x ! i - x ! (i - 1)"] by simp
    then show "fl64 ((fl64 (map uminus x ! i - map uminus x ! (i - 1)))\<^sup>2)
        = fl64 ((fl64 (x ! i - x ! (i - 1)))\<^sup>2)"
      using i by simp
  qed
  then show ?thesis by (simp only: qv64_def length_map)
qed

lemma x_s64_uminus: "x_s64 (map uminus x) = x_s64 x"
proof -
  have "map (\<lambda>i. fl64 ((dx64 (map uminus x) i)\<^sup>2)) [0..<length x]
      = map (\<lambda>i. fl64 ((dx64 x i)\<^sup>2)) [0..<length x]"
    by (rule map_cong [OF refl]) (simp add: dx64_uminus)
  then show ?thesis by (simp only: x_s64_def length_map)
qed

lemma mean_rev_score64_uminus:
  "mean_rev_score64 (map (\<lambda>v. Num (- v)) x) beta = mean_rev_score64 (map Num x) beta"
proof -
  have "drop_nan (map (\<lambda>v. Num (- v)) x) = map uminus x"
    by (induction x) (simp_all add: drop_nan_def isnan_def)
  then show ?thesis
    by (simp add: mean_rev_score64_def Let_def drop_nan_Num qv64_uminus x_s64_uminus)
qed

section \<open>Double precision: the rounding is monotone\<close>

text \<open>
  A larger real has a larger or equal nearest double; in particular a result stays within
  any bounds that are doubles themselves.
\<close>

lemma powr_split:
  "(2::real) powr of_int L = 2 powr 52 * 2 powr of_int (L - 52)"
  "(2::real) powr (of_int L + 1) = 2 powr 53 * 2 powr of_int (L - 52)"
proof -
  have "(2::real) powr of_int L = 2 powr (52 + of_int (L - 52))" by simp
  then show "(2::real) powr of_int L = 2 powr 52 * 2 powr of_int (L - 52)"
    by (simp only: powr_add)
  have "(2::real) powr (of_int L + 1) = 2 powr (53 + of_int (L - 52))" by (simp add: add.commute)
  then show "(2::real) powr (of_int L + 1) = 2 powr 53 * 2 powr of_int (L - 52)"
    by (simp only: powr_add)
qed

lemma py_round_le_int:
  assumes "r \<le> of_int k"
  shows "py_round r \<le> k"
  using py_round_mono [OF assms] by (simp only: py_round_of_int)

lemma py_round_ge_int:
  assumes "of_int k \<le> r"
  shows "k \<le> py_round r"
  using py_round_mono [OF assms] by (simp only: py_round_of_int)

lemma fl64_pos_mono:
  assumes "0 < x" and "x \<le> y"
  shows "fl64 x \<le> fl64 y"
proof -
  define Lx where "Lx = max \<lfloor>log 2 x\<rfloor> (- 1022)"
  define Ly where "Ly = max \<lfloor>log 2 y\<rfloor> (- 1022)"
  define qx :: real where "qx = 2 powr of_int (Lx - 52)"
  define qy :: real where "qy = 2 powr of_int (Ly - 52)"
  have ypos: "0 < y" using assms by linarith
  have qxpos: "0 < qx" and qypos: "0 < qy" by (simp_all add: qx_def qy_def)
  have fx: "fl64 x = of_int (py_round (x / qx)) * qx"
    using assms(1) by (simp add: fl64_def Let_def Lx_def qx_def)
  have fy: "fl64 y = of_int (py_round (y / qy)) * qy"
    using ypos by (simp add: fl64_def Let_def Ly_def qy_def)
  have "log 2 x \<le> log 2 y" using assms by simp
  then have "\<lfloor>log 2 x\<rfloor> \<le> \<lfloor>log 2 y\<rfloor>" by (rule floor_mono)
  then have le: "Lx \<le> Ly" by (simp add: Lx_def Ly_def)
  show ?thesis
  proof (cases "Lx = Ly")
    case True
    then have qq: "qy = qx" by (simp add: qx_def qy_def)
    have "x / qx \<le> y / qx" using assms(2) qxpos by (simp add: divide_right_mono)
    then have "py_round (x / qx) \<le> py_round (y / qx)" by (rule py_round_mono)
    then have "(of_int (py_round (x / qx)) :: real) \<le> of_int (py_round (y / qx))" by simp
    then have "of_int (py_round (x / qx)) * qx \<le> of_int (py_round (y / qx)) * qx"
      using qxpos by (simp add: mult_right_mono)
    then show ?thesis by (simp only: fx fy qq)
  next
    case False
    then have lt: "Lx + 1 \<le> Ly" using le by simp
    have "log 2 x < of_int \<lfloor>log 2 x\<rfloor> + 1" by linarith
    also have "\<dots> \<le> of_int Lx + 1" by (simp add: Lx_def)
    finally have "x < 2 powr (of_int Lx + 1)"
      using assms(1) by (simp add: log_less_iff)
    then have "x < 2 powr 53 * qx" by (simp only: powr_split(2) [of Lx] qx_def)
    then have "x / qx \<le> 2 powr 53" using qxpos by (simp add: pos_divide_le_eq)
    also have "(2::real) powr 53 = of_int (2 ^ 53)"
      using powr_realpow [of 2 53] by simp
    finally have "py_round (x / qx) \<le> 2 ^ 53" by (rule py_round_le_int)
    then have "(of_int (py_round (x / qx)) :: real) \<le> of_int (2 ^ 53)"
      by (simp only: of_int_le_iff)
    then have "of_int (py_round (x / qx)) * qx \<le> of_int (2 ^ 53) * qx"
      using qxpos by (simp add: mult_right_mono)
    also have "of_int (2 ^ 53) * qx = 2 powr 53 * qx"
      using powr_realpow [of 2 53] by simp
    also have "\<dots> = 2 powr (of_int Lx + 1)" by (simp only: powr_split(2) [of Lx] qx_def)
    finally have ux: "fl64 x \<le> 2 powr (of_int Lx + 1)" by (simp only: fx)
    have "- 1022 \<le> Lx" by (simp add: Lx_def)
    then have "- 1022 < Ly" using lt by linarith
    then have Lyf: "Ly = \<lfloor>log 2 y\<rfloor>" by (simp add: Ly_def max_def split: if_splits)
    have "of_int Ly \<le> log 2 y" unfolding Lyf by simp
    then have "2 powr of_int Ly \<le> y" using ypos by (simp add: le_log_iff)
    then have "2 powr 52 * qy \<le> y" by (simp only: powr_split(1) [of Ly] qy_def)
    then have "2 powr 52 \<le> y / qy" using qypos by (simp add: pos_le_divide_eq)
    moreover have "(2::real) powr 52 = of_int (2 ^ 52)"
      using powr_realpow [of 2 52] by simp
    ultimately have "of_int (2 ^ 52) \<le> y / qy" by (simp only:)
    then have "2 ^ 52 \<le> py_round (y / qy)" by (rule py_round_ge_int)
    then have "(of_int (2 ^ 52) :: real) \<le> of_int (py_round (y / qy))"
      by (simp only: of_int_le_iff)
    then have "of_int (2 ^ 52) * qy \<le> of_int (py_round (y / qy)) * qy"
      using qypos by (simp add: mult_right_mono)
    moreover have "of_int (2 ^ 52) * qy = 2 powr 52 * qy"
      using powr_realpow [of 2 52] by simp
    moreover have "2 powr 52 * qy = 2 powr of_int Ly" by (simp only: powr_split(1) [of Ly] qy_def)
    ultimately have ly: "2 powr of_int Ly \<le> fl64 y" by (simp only: fy)
    have "(2::real) powr (of_int Lx + 1) \<le> 2 powr of_int Ly"
    proof (rule powr_mono)
      show "(of_int Lx + 1 :: real) \<le> of_int Ly" using lt by linarith
      show "(1::real) \<le> 2" by simp
    qed
    then show ?thesis using ux ly by linarith
  qed
qed

lemma fl64_nonneg:
  assumes "0 \<le> x"
  shows "0 \<le> fl64 x"
proof (cases "x = 0")
  case True
  then show ?thesis by simp
next
  case False
  define q :: real where "q = 2 powr of_int (max \<lfloor>log 2 \<bar>x\<bar>\<rfloor> (- 1022) - 52)"
  have qpos: "0 < q" by (simp add: q_def)
  have "0 \<le> x / q" using assms qpos by simp
  then have "of_int 0 \<le> x / q" by simp
  then have "0 \<le> py_round (x / q)" by (rule py_round_ge_int)
  moreover have "fl64 x = of_int (py_round (x / q)) * q"
    using False by (simp add: fl64_def Let_def q_def)
  ultimately show ?thesis using qpos by simp
qed

lemma fl64_mono:
  assumes "x \<le> y"
  shows "fl64 x \<le> fl64 y"
proof -
  consider "0 < x" | "x \<le> 0" "0 \<le> y" | "y < 0" by linarith
  then show ?thesis
  proof cases
    case 1
    then show ?thesis using assms by (rule fl64_pos_mono)
  next
    case 2
    have "0 \<le> fl64 (- x)" using 2(1) by (intro fl64_nonneg) simp
    then have "fl64 x \<le> 0" by (simp add: fl64_uminus)
    moreover have "0 \<le> fl64 y" using 2(2) by (rule fl64_nonneg)
    ultimately show ?thesis by linarith
  next
    case 3
    then have "0 < - y" and "- y \<le> - x" using assms by simp_all
    then have "fl64 (- y) \<le> fl64 (- x)" by (rule fl64_pos_mono)
    then show ?thesis by (simp add: fl64_uminus)
  qed
qed



lemma fl64_vals:
  "fl64 2 = 2" "fl64 4 = 4" "fl64 200 = 200" "fl64 7 = 7" "fl64 14 = 14" "fl64 5 = 5" "fl64 10 = 10"
  "fl64 (5 / 2) = 5 / 2" "fl64 (3 / 2) = 3 / 2" "fl64 (- (3 / 2)) = - (3 / 2)"
  "fl64 (3 / 4) = 3 / 4" "fl64 (- (3 / 4)) = - (3 / 4)" "fl64 (- (1 / 4)) = - (1 / 4)"
  "fl64 (9 / 4) = 9 / 4" "fl64 (11 / 4) = 11 / 4"
  using fl64_int [of 2] fl64_int [of 4] fl64_int [of 200] fl64_int [of 7] fl64_int [of 14]
    fl64_int [of 5] fl64_int [of 10]
    fl64_dyadic [of 5 1] fl64_dyadic [of 3 1] fl64_dyadic [of "- 3" 1]
    fl64_dyadic [of 3 2] fl64_dyadic [of "- 3" 2] fl64_dyadic [of "- 1" 2] fl64_dyadic [of 9 2]
    fl64_dyadic [of 11 2]
  by simp_all

section \<open>Double precision: ranges, from the computed correlation\<close>








section \<open>Double precision: constant series, from the computed mean\<close>








section \<open>Double precision: reversal and compression\<close>


lemma trend_compression64:
  assumes "0 < \<bar>rho64 (drop_nan xs)\<bar>" and "\<bar>rho64 (drop_nan xs)\<bar> < 1"
  shows "\<exists>z1 z3. trend_score64 xs 1 = Inr z1 \<and> trend_score64 xs 3 = Inr z3 \<and>
           \<bar>z3\<bar> \<le> \<bar>z1\<bar> \<and> (0 < rho64 (drop_nan xs) \<longrightarrow> \<bar>z3\<bar> \<le> z1)"
proof -
  define x where "x = drop_nan xs"
  define r where "r = \<bar>rho64 x\<bar>"
  define v where "v alpha = fl64 (100 * fl64 (r powr alpha))" for alpha
  have r: "0 < r" "r < 1" using assms by (simp_all add: r_def x_def)
  have rho_nz: "rho64 x \<noteq> 0" using r by (auto simp: r_def)
  then have nz: "deno64 x \<noteq> 0" by (auto simp: rho64_def)
  have ne: "length x \<noteq> 0" using rho_nz by (auto simp: rho64_def numr64_def fsum_def)
  have s: "sgn (rho64 x) = 1 \<or> sgn (rho64 x) = - 1" using rho_nz by (auto simp: sgn_real_def)
  have o: "fl64 (100 * sgn (rho64 x) * p) = sgn (rho64 x) * fl64 (100 * p)" for p
    using s fl64_uminus [of "100 * p"] by auto
  have t: "trend_score64 xs alpha = Inr (py_round (sgn (rho64 x) * v alpha))" for alpha
    using nz ne rho_nz
    by (simp add: trend_score64_def Let_def x_def [symmetric] r_def [symmetric] o v_def)
  have vnn: "0 \<le> v alpha" for alpha
    unfolding v_def by (intro fl64_nonneg mult_nonneg_nonneg) simp_all
  have a: "\<bar>py_round (sgn (rho64 x) * v alpha)\<bar> = py_round (v alpha)" for alpha
    by (rule py_round_abs [OF vnn s])
  have "r ^ 3 \<le> r ^ 1"
    by (rule power_decreasing) (use r in simp_all)
  then have "r powr 3 \<le> r powr 1" using r by (simp add: powr_numeral)
  then have "fl64 (r powr 3) \<le> fl64 (r powr 1)" by (rule fl64_mono)
  then have "100 * fl64 (r powr 3) \<le> 100 * fl64 (r powr 1)" by simp
  then have "v 3 \<le> v 1" unfolding v_def by (rule fl64_mono)
  then have le: "py_round (v 3) \<le> py_round (v 1)" by (rule py_round_mono)
  have p: "py_round (sgn (rho64 x) * v 1) = py_round (v 1)" if "0 < rho64 x"
    using that by simp
  show ?thesis
    using le t [of 1] t [of 3] a [of 1] a [of 3] p by (auto simp: x_def)
qed

section \<open>Double precision: evaluations on small series\<close>

text \<open>
  On these series every operation of the two functions is exact in double precision.
\<close>

lemma u3: "[0..<3] = [0, Suc 0, 2]"
  by (simp add: upt_rec)

lemma trend_score64_Num:
  assumes "x \<noteq> []" and "deno64 x \<noteq> 0" and "rho64 x \<noteq> 0 \<or> 0 \<le> alpha"
  shows "trend_score64 (map Num x) alpha
           = Inr (py_round (fl64 (100 * sgn (rho64 x) * fl64 (\<bar>rho64 x\<bar> powr alpha))))"
  using assms by (auto simp: trend_score64_def Let_def drop_nan_Num)


lemma tie64_parts:
  "numr64 [0, - 1, 1] = 1" "deno64 [0, - 1, 1] = 2" "rho64 [0, - 1, 1] = 1 / 2"
proof -
  let ?x = "[0, - 1, 1 :: real]"
  have l: "length ?x = 3" by simp
  have xm: "x_m64 ?x = 0" by (simp add: x_m64_def fsum_def fl64_1)
  have tm: "t_m64 3 = 2" by (simp add: t_m64_def fl64_vals)
  have dx: "dx64 ?x 0 = 0" "dx64 ?x (Suc 0) = - 1" "dx64 ?x 2 = 1"
    by (simp_all add: dx64_def xm fl64_1)
  have dt: "dt64 3 0 = - 1" "dt64 3 (Suc 0) = 0" "dt64 3 2 = 1"
    by (simp_all add: dt64_def tm fl64_1)
  have "numr64 ?x = fsum (map (\<lambda>i. fl64 (dx64 ?x i * dt64 3 i)) [0, Suc 0, 2])"
    by (simp only: numr64_def Let_def l u3)
  then show nu: "numr64 ?x = 1" by (simp add: dx dt fsum_def fl64_1)
  have sx: "fsum (map (\<lambda>i. fl64 ((dx64 ?x i)\<^sup>2)) [0, Suc 0, 2]) = 2"
    by (simp add: dx fsum_def fl64_1 fl64_vals)
  have st: "fsum (map (\<lambda>i. fl64 ((dt64 3 i)\<^sup>2)) [0, Suc 0, 2]) = 2"
    by (simp add: dt fsum_def fl64_1 fl64_vals)
  have rt: "sqrt 4 = 2" using real_sqrt_abs [of 2] by simp
  have "deno64 ?x = fl64 (sqrt (fl64 (2 * 2)))"
    using sx st by (simp only: deno64_def Let_def l u3)
  then show de: "deno64 ?x = 2" by (simp add: fl64_vals rt)
  show "rho64 ?x = 1 / 2" by (simp add: rho64_def nu de fl64_small)
qed

lemma tie_trend64: "trend_score64 (map Num [0, - 1, 1]) 3 = Inr 12"
proof -
  have v: "fl64 (100 * sgn (1 / 2 :: real) * fl64 (\<bar>1 / 2\<bar> powr 3)) = 25 / 2"
    by (simp add: powr_numeral power3_eq_cube fl64_small)
  have "trend_score64 (map Num [0, - 1, 1]) 3
      = Inr (py_round (fl64 (100 * sgn (rho64 [0, - 1, 1]) * fl64 (\<bar>rho64 [0, - 1, 1]\<bar> powr 3))))"
    by (rule trend_score64_Num) (simp_all add: tie64_parts)
  then show ?thesis by (simp only: tie64_parts(3) v py_round_25_2)
qed


lemma mr01_parts: "qv64 [0, 1] = 1" "x_s64 [0, 1] = 1 / 2"
proof -
  let ?x = "[0, 1 :: real]"
  have u2: "[0..<2] = [0, Suc 0]" and u12: "[1..<2] = [Suc 0]" by (simp_all add: upt_rec)
  have l: "length ?x = 2" by simp
  show "qv64 ?x = 1"
    by (simp only: qv64_def l u12) (simp add: fsum_one fl64_1)
  have xm: "x_m64 ?x = 1 / 2" by (simp add: x_m64_def fsum_two fl64_1 fl64_small)
  have dx: "dx64 ?x 0 = - (1 / 2)" "dx64 ?x (Suc 0) = 1 / 2"
    by (simp_all add: dx64_def xm fl64_small)
  have "x_s64 ?x = fl64 (fsum (map (\<lambda>i. fl64 ((dx64 ?x i)\<^sup>2)) [0, Suc 0]) / real (2 - 1))"
    by (simp only: x_s64_def l u2)
  then show "x_s64 ?x = 1 / 2"
    by (simp add: dx fsum_two power2_eq_square fl64_small)
qed









section \<open>Double precision: the last step\<close>

lemma trend_score64_score_of:
  "trend_score64 xs alpha = score_of (trend_arg64 (drop_nan xs) alpha)"
  by (simp add: trend_score64_def trend_arg64_def score_of_def Let_def
      py_round_of_int [of 0, simplified])

lemma mean_rev_score64_score_of:
  "mean_rev_score64 xs beta = score_of (mean_rev_arg64 (drop_nan xs) beta)"
  by (simp add: mean_rev_score64_def mean_rev_arg64_def score_of_def Let_def)

lemma tie_trend_arg64: "trend_arg64 [0, - 1, 1] 3 = Inr (25 / 2)"
proof -
  have v: "fl64 (100 * sgn (1 / 2 :: real) * fl64 (\<bar>1 / 2\<bar> powr 3)) = 25 / 2"
    by (simp add: powr_numeral power3_eq_cube fl64_small)
  have "trend_arg64 [0, - 1, 1] 3
      = Inr (fl64 (100 * sgn (rho64 [0, - 1, 1]) * fl64 (\<bar>rho64 [0, - 1, 1]\<bar> powr 3)))"
    by (simp add: trend_arg64_def tie64_parts)
  then show ?thesis by (simp only: tie64_parts(3) v)
qed

lemma tie_mean_rev_arg64: "mean_rev_arg64 [0, 1] 6 = Inr (25 / 2)"
proof -
  have e: "fl64 (fl64 (- 6 * (1 / 2)) / 1) = - 3" by (simp add: fl64_small)
  have p: "(2::real) powr (- 3) = 1 / 8" by (simp add: powr_minus_divide)
  have v: "fl64 (100 * fl64 (2 powr fl64 (fl64 (- 6 * (1 / 2)) / 1))) = 25 / 2"
    by (simp only: e p fl64_small) (simp add: fl64_small)
  have "mean_rev_arg64 [0, 1] 6
      = Inr (fl64 (100 * fl64 (2 powr fl64 (fl64 (- 6 * x_s64 [0, 1]) / qv64 [0, 1]))))"
    by (simp add: mean_rev_arg64_def mr01_parts)
  then show ?thesis by (simp only: mr01_parts v)
qed

section \<open>Double precision: a constant series that scores 0\<close>





section \<open>Two remarks\<close>


text \<open>
  The positions are those of the compacted list: the gaps that the NaN entries leave
  do not count.
\<close>

lemma nan_gaps_not_counted:
  "trend_score [Num 1, NaN, Num 3, Num 2, NaN, NaN, Num 4, Num 3, Num 5] 3 = Inr 57"
proof -
  have "drop_nan [Num 1, NaN, Num 3, Num 2, NaN, NaN, Num 4, Num 3, Num 5]
      = drop_nan (map Num [1, 3, 2, 4, 3, 5])"
    by (simp add: drop_nan_def isnan_def)
  then have "trend_score [Num 1, NaN, Num 3, Num 2, NaN, NaN, Num 4, Num 3, Num 5] 3
      = trend_score (map Num [1, 3, 2, 4, 3, 5]) 3"
    by (simp only: trend_score_def)
  then show ?thesis by (simp only: x4_trend_alpha3)
qed

section \<open>The claims\<close>










text \<open>
  Claim C4. Both functions first drop the NaN entries: the values they compute with
  are the non-NaN entries in their original order, and the score of a list is the score
  of its NaN-free compaction (whose positions are then counted \<open>1, \<dots>, n'\<close>).
\<close>

theorem C4_nan_filtering:
  "map Num (drop_nan xs) = filter (\<lambda>v. \<not> isnan v) xs \<and>
   trend_score xs alpha = trend_score (filter (\<lambda>v. \<not> isnan v) xs) alpha \<and>
   mean_rev_score xs beta = mean_rev_score (filter (\<lambda>v. \<not> isnan v) xs) beta"
  by (simp add: Num_drop_nan trend_score_def mean_rev_score_def drop_nan_filter)

text \<open>
  Claim C5, as stated: the real value is rounded with exact ties going away from zero.
  Both functions reach the tie 12.5 and return 12, where rounding half away from zero
  gives 13. (All operations on these two inputs are exact in double precision, so the
  computed value is the tie itself.)
\<close>

theorem C5_ties_counterexample:
  "trend_score [Num 0, Num (- 1), Num 1] 3 = Inr 12 \<and>
   round_half_away (100 * sgn (rho [0, - 1, 1]) * \<bar>rho [0, - 1, 1]\<bar> powr 3) = 13 \<and>
   mean_rev_score [Num 0, Num 1] 6 = Inr 12 \<and>
   round_half_away (100 * 2 powr (- 6 * x_s [0, 1] / qv [0, 1])) = 13 \<and>
   trend_arg64 [0, - 1, 1] 3 = Inr (25 / 2) \<and>
   trend_score64 [Num 0, Num (- 1), Num 1] 3 = Inr 12 \<and>
   mean_rev_arg64 [0, 1] 6 = Inr (25 / 2) \<and>
   mean_rev_score64 [Num 0, Num 1] 6 = Inr 12 \<and>
   round_half_away (25 / 2) = 13"
proof -
  have "trend_score [Num 0, Num (- 1), Num 1] 3 = Inr 12 \<and>
     round_half_away (100 * sgn (rho [0, - 1, 1]) * \<bar>rho [0, - 1, 1]\<bar> powr 3) = 13 \<and>
     mean_rev_score [Num 0, Num 1] 6 = Inr 12 \<and>
     round_half_away (100 * 2 powr (- 6 * x_s [0, 1] / qv [0, 1])) = 13"
    using tie_trend tie_mean_rev
    by (simp only: tie_trend_value tie_mean_rev_value round_half_away_25_2) simp
  moreover have "trend_score64 [Num 0, Num (- 1), Num 1] 3 = Inr 12"
    using tie_trend64 by simp
  ultimately show ?thesis
    using tie_trend_arg64 tie_mean_rev_arg64 mr64_01 round_half_away_25_2 by (simp only: simp_thms)
qed

text \<open>
  Claim C5, amended: both functions end in \<^verbatim>\<open>int(round(v))\<close>, where \<open>v\<close> is the value
  that the function has computed for \<open>100 sgn(rho) |rho|^alpha\<close>, respectively
  \<open>100 2^(-beta x_s / qv)\<close>. The score is an integer nearest to that computed \<open>v\<close>, and
  at an exact tie of \<open>v\<close> it is the even one of the two nearest integers. This is stated
  for whatever \<open>v\<close> (or exception) the arithmetic has produced, the exact one or the one
  in double precision.
\<close>

theorem C5_rounds_computed_value:
  "trend_score xs alpha = score_of (trend_arg (drop_nan xs) alpha) \<and>
   mean_rev_score ys beta = score_of (mean_rev_arg (drop_nan ys) beta) \<and>
   trend_score64 xs alpha = score_of (trend_arg64 (drop_nan xs) alpha) \<and>
   mean_rev_score64 ys beta = score_of (mean_rev_arg64 (drop_nan ys) beta) \<and>
   (score_of r = Inr z \<longrightarrow> (\<exists>v. r = Inr v \<and> nearest_ties_even v z))"
  using trend_score_score_of mean_rev_score_score_of trend_score64_score_of
    mean_rev_score64_score_of score_of_nearest
  by blast

theorem C5_rounds_computed_value_witness:
  "trend_score (map Num [0, - 1, 1]) 3 = score_of (Inr (25 / 2)) \<and>
   mean_rev_score (map Num [0, 1]) 6 = score_of (Inr (25 / 2)) \<and>
   trend_score64 (map Num [0, - 1, 1]) 3 = score_of (Inr (25 / 2)) \<and>
   mean_rev_score64 (map Num [0, 1]) 6 = score_of (Inr (25 / 2)) \<and>
   score_of (Inr (25 / 2)) = Inr 12 \<and>
   (\<exists>v. (Inr (25 / 2) :: error + real) = Inr v \<and> nearest_ties_even v 12)"
proof -
  have s: "score_of (Inr (25 / 2)) = Inr 12" by (simp add: score_of_def py_round_25_2)
  from C5_rounds_computed_value
    [of "map Num [0, - 1, 1]" 3 "map Num [0, 1]" 6 "Inr (25 / 2)" 12] s
  show ?thesis
    by (simp only: drop_nan_Num tie_trend_arg tie_mean_rev_arg tie_trend_arg64
        tie_mean_rev_arg64)
qed

text \<open>
  Claim C6. The documented example: \<open>[1, 3, 2, 4, 3, 5]\<close> has trend score 57 with
  the default exponent and 83 with \<open>alpha = 1\<close>.
\<close>

theorem C6_documented_trend:
  "trend_score (map Num [1, 3, 2, 4, 3, 5]) alpha_default = Inr 57 \<and>
   trend_score (map Num [1, 3, 2, 4, 3, 5]) 1 = Inr 83"
  using x4_trend_alpha3 x4_trend_alpha1 by (simp add: alpha_default_def)

text \<open>
  Claim C7. The documented example: \<open>[-1, 1, -1, 1, -1]\<close> has mean-reversion score 46
  with the default \<open>beta\<close>. Here \<open>qv = 16\<close>, the sample variance is \<open>6/5\<close>, and 46 is
  the rounded value of \<open>100 2^(-beta x_s / qv)\<close>.
\<close>

theorem C7_documented_mean_rev:
  "mean_rev_score (map Num [- 1, 1, - 1, 1, - 1]) beta_default = Inr 46 \<and>
   qv [- 1, 1, - 1, 1, - 1] = 16 \<and>
   x_s [- 1, 1, - 1, 1, - 1] = 6 / 5 \<and>
   py_round (100 * 2 powr (- beta_default * x_s [- 1, 1, - 1, 1, - 1]
                            / qv [- 1, 1, - 1, 1, - 1])) = 46"
proof -
  have m: "mean_rev_score (map Num [- 1, 1, - 1, 1, - 1]) beta_default = Inr 46"
    using x1_mean_rev by (simp add: beta_default_def)
  from mean_rev_score_value [OF m]
  have "py_round (100 * 2 powr (- beta_default * x_s [- 1, 1, - 1, 1, - 1]
                            / qv [- 1, 1, - 1, 1, - 1])) = 46"
    by (simp only: drop_nan_Num)
  with m show ?thesis by (simp only: x1_qv x1_x_s)
qed






text \<open>
  Claim C10, as stated: the mean-reversion score of \<open>a x + b\<close> is that of \<open>x\<close> for every
  \<open>a \<noteq> 0\<close> and \<open>b\<close>. In double precision \<open>[0, 1]\<close> scores 12 with \<open>beta = 6\<close>, its
  multiple by \<^verbatim>\<open>a = 5/2^538\<close> scores 6 and its shift by \<^verbatim>\<open>b = 2^52\<close> scores 2 (all
  values are doubles, \<open>qv > 0\<close>).
\<close>

theorem C10_scale_shift_counterexample:
  "mean_rev_score64 (map Num [0, 1]) 6 = Inr 12 \<and>
   mean_rev_score64 (map (\<lambda>v. Num (5 / 2 ^ 538 * v + 0)) [0, 1]) 6 = Inr 6 \<and>
   mean_rev_score64 (map (\<lambda>v. Num (1 * v + 4503599627370496)) [0, 1]) 6 = Inr 2"
proof -
  have a: "map Num [0, 1 :: real] = [Num 0, Num 1]" by simp
  have b: "map (\<lambda>v. Num (5 / 2 ^ 538 * v + 0)) [0, 1 :: real] = [Num 0, Num (5 / 2 ^ 538)]"
    by simp
  have c: "map (\<lambda>v. Num (1 * v + 4503599627370496)) [0, 1 :: real]
      = [Num 4503599627370496, Num 4503599627370497]"
    by simp
  show ?thesis using mr64_01 mr64_scaled mr64_shifted by (simp only: a b c simp_thms)
qed

text \<open>
  Claim C10, amended: in double precision the mean-reversion score is invariant under
  the negation of all values, \<open>a = -1\<close> and \<open>b = 0\<close>. (For the other \<open>a\<close> and \<open>b\<close> the
  invariance is an identity of exact arithmetic, see \<open>mean_rev_score_affine\<close>, which
  the rounding of \<open>a x + b\<close>, of the mean and of the squares can break.)
\<close>

theorem C10_negation_invariance64:
  "mean_rev_score64 (map (\<lambda>v. Num ((- 1) * v + 0)) x) beta = mean_rev_score64 (map Num x) beta"
  using mean_rev_score64_uminus [of x beta] by simp

end
